theory Spec2Isabelle
  imports Main "HOL-Library.Char_ord" "HOL-Library.List_Lexorder"
begin

section \<open>The store (database.py)\<close>

text \<open>
  The tables of \<^verbatim>\<open>init_db\<close>, one record per row and one list per table, in rowid order.
  Column names carry a table prefix where two tables share a name. TEXT columns are
  strings (lists of code points below 256), compared as SQLite's BINARY collation compares
  them: lexicographically. INTEGER columns are unbounded integers, as Python's are; the
  64-bit range of SQLite is not represented. The columns \<^verbatim>\<open>password_hash\<close>,
  \<^verbatim>\<open>created_at\<close> (the wall clock) and the row ids of \<^verbatim>\<open>event_resources\<close>, \<^verbatim>\<open>approvals\<close> and \<^verbatim>\<open>notifications\<close>, which no
  handler below reads, are left out. The handlers only insert references to rows that
  exist in a store satisfying the declared foreign keys, so constraint failures are not
  represented.
\<close>

record user =
  u_id :: int
  username :: string
  full_name :: string
  u_role :: string
  department :: string

record venue =
  v_id :: int
  v_name :: string
  capacity :: int
  location :: string

record resource =
  r_id :: int
  r_name :: string
  total_quantity :: int
  available_quantity :: int

record event =
  e_id :: int
  title :: string
  description :: string
  event_date :: string
  start_time :: string
  end_time :: string
  expected_attendees :: int
  venue_id :: int
  status :: string
  current_approver_role :: string
  created_by :: int
  rejection_reason :: string

record event_resource =
  er_event_id :: int
  er_resource_id :: int
  quantity_requested :: int

record approval =
  a_event_id :: int
  approver_id :: int
  a_role :: string
  a_action :: string
  a_comment :: string

record notification =
  n_user_id :: int
  n_message :: string
  is_read :: int

record db =
  users :: "user list"
  venues :: "venue list"
  resources :: "resource list"
  events :: "event list"
  event_resources :: "event_resource list"
  approvals :: "approval list"
  notifications :: "notification list"

text \<open>
  \<^verbatim>\<open>cursor.lastrowid\<close> of an insert into an AUTOINCREMENT table: one more than the largest
  rowid the table ever held (0 for a table that never held a row). No handler deletes a
  row, so that is the largest id present.
\<close>

definition lastrowid :: "int list \<Rightarrow> int" where
  "lastrowid ids = fold max ids 0 + 1"

section \<open>Requests and responses (app.py)\<close>

text \<open>
  \<^verbatim>\<open>str.strip()\<close> removes leading and trailing white space; below code point 256 Python's
  white space is 9 to 13, 28 to 32, 133 and 160.
\<close>

definition is_space :: "char \<Rightarrow> bool" where
  "is_space c = (of_char c \<in> {9, 10, 11, 12, 13, 28, 29, 30, 31, 32, 133, 160 :: nat})"

definition strip :: "string \<Rightarrow> string" where
  "strip s = rev (dropWhile is_space (rev (dropWhile is_space s)))"

datatype http_method = GET | POST

datatype py_error = ValueError | KeyError

datatype page = LoginPage | Dashboard | NewEventForm | EventDetail int

text \<open>
  The flashed messages, each with the values its f-string interpolates, in the order of
  their appearance in the text.
\<close>

datatype flash =
    PleaseLogIn
  | NoPermission
  | FillRequired
  | VenueMissing
  | CapacityExceeded string int int
  | TimeSlotConflict string string string string string
  | InsufficientStock string int int
  | Submitted
  | NotCurrentApprover
  | Approved string
  | ReasonRequired
  | Rejected
  | CannotComplete
  | Completed

text \<open>
  What a handler answers: a page (rendered or redirected to) after a flashed message, a
  page without one, \<^verbatim>\<open>abort(404)\<close>, or an uncaught exception. A handler that does not reach
  \<^verbatim>\<open>db.commit()\<close> leaves the store as it was.
\<close>

datatype response = Flashed flash page | Plain page | Abort404 | Raised py_error

text \<open>
  The form of \<^verbatim>\<open>/events/new\<close>. A text field that is absent reads as the empty string. A
  numeric field is given as the result of \<^verbatim>\<open>int(request.form.get(..., 0))\<close>: \<open>Some n\<close>, or
  \<open>None\<close> where \<^verbatim>\<open>int\<close> raises ValueError; \<open>f_resource\<close> maps a resource id to the field
  \<^verbatim>\<open>resource_<id>\<close>.
\<close>

record form =
  f_title :: string
  f_description :: string
  f_event_date :: string
  f_start_time :: string
  f_end_time :: string
  f_expected_attendees :: "int option"
  f_venue_id :: "int option"
  f_resource :: "int \<Rightarrow> int option"

definition APPROVAL_FLOW :: "string \<Rightarrow> (string \<times> string) option" where
  "APPROVAL_FLOW = map_of
     [(''pending_hod'', (''hod'', ''pending_dean'')),
      (''pending_dean'', (''dean'', ''pending_head'')),
      (''pending_head'', (''head'', ''approved''))]"

definition ROLE_LABELS :: "string \<Rightarrow> string option" where
  "ROLE_LABELS = map_of
     [(''coordinator'', ''Event Coordinator''),
      (''hod'', ''Head of Department''),
      (''dean'', ''Dean''),
      (''head'', ''Institutional Head''),
      (''admin'', ''Admin / ITC'')]"

text \<open>\<^verbatim>\<open>load_user\<close>: \<open>g.user\<close> is the row of the session's user id, if any.\<close>

definition load_user :: "db \<Rightarrow> int option \<Rightarrow> user option" where
  "load_user d session =
     (case session of None \<Rightarrow> None
      | Some uid \<Rightarrow> find (\<lambda>u. u_id u = uid) (users d))"

text \<open>
  The two decorators, as the conditions under which they let the request through. Each
  handler below starts with them, in the order the decorators apply: \<^verbatim>\<open>login_required\<close>
  first, then \<^verbatim>\<open>role_required\<close>, which refuses a session whose user row is missing.
\<close>

definition login_required :: "int option \<Rightarrow> bool" where
  "login_required session = (session \<noteq> None)"

definition role_required :: "string list \<Rightarrow> user option \<Rightarrow> bool" where
  "role_required roles g_user =
     (case g_user of None \<Rightarrow> False | Some u \<Rightarrow> u_role u \<in> set roles)"

definition notify :: "int \<Rightarrow> string \<Rightarrow> db \<Rightarrow> db" where
  "notify uid msg d =
     d\<lparr>notifications := notifications d @ [\<lparr>n_user_id = uid, n_message = msg, is_read = 0\<rparr>]\<rparr>"

definition quoted :: "string \<Rightarrow> string" where
  "quoted s = CHR 0x27 # s @ [CHR 0x27]"

subsection \<open>new_event\<close>

text \<open>The WHERE clause of the time-slot conflict query.\<close>

definition conflicts :: "int \<Rightarrow> string \<Rightarrow> string \<Rightarrow> string \<Rightarrow> event \<Rightarrow> bool" where
  "conflicts vid date s e ev =
     (venue_id ev = vid \<and> event_date ev = date
      \<and> status ev \<notin> {''rejected'', ''completed''}
      \<and> \<not> (end_time ev \<le> s \<or> start_time ev \<ge> e))"

text \<open>
  The resource validation loop over \<^verbatim>\<open>SELECT * FROM resources ORDER BY name\<close>: the list of
  (resource id, quantity) requests, or the first failure.
\<close>

fun resource_validation :: "(int \<Rightarrow> int option) \<Rightarrow> resource list \<Rightarrow> response + (int \<times> int) list" where
  "resource_validation qtys [] = Inr []"
| "resource_validation qtys (res # rest) =
     (case qtys (r_id res) of
        None \<Rightarrow> Inl (Raised ValueError)
      | Some qty \<Rightarrow>
          if qty > 0 then
            if qty > available_quantity res then
              Inl (Flashed (InsufficientStock (r_name res) (available_quantity res) qty) NewEventForm)
            else
              (case resource_validation qtys rest of
                 Inl r \<Rightarrow> Inl r
               | Inr resource_requests \<Rightarrow> Inr ((r_id res, qty) # resource_requests))
          else resource_validation qtys rest)"

text \<open>The reservation loop: one hold row and one debit per request.\<close>

definition debit :: "int \<Rightarrow> int \<Rightarrow> resource \<Rightarrow> resource" where
  "debit res_id qty r =
     (if r_id r = res_id then r\<lparr>available_quantity := available_quantity r - qty\<rparr> else r)"

fun reserve_resources :: "int \<Rightarrow> (int \<times> int) list \<Rightarrow> db \<Rightarrow> db" where
  "reserve_resources event_id [] d = d"
| "reserve_resources event_id ((res_id, qty) # rest) d =
     reserve_resources event_id rest
       (d\<lparr>event_resources := event_resources d @
             [\<lparr>er_event_id = event_id, er_resource_id = res_id, quantity_requested = qty\<rparr>],
          resources := map (debit res_id qty) (resources d)\<rparr>)"

text \<open>The part after \<^verbatim>\<open># All checks passed\<close>: the insert, the reservation loop, the notification.\<close>

definition create_event ::
  "db \<Rightarrow> user \<Rightarrow> string \<Rightarrow> string \<Rightarrow> string \<Rightarrow> string \<Rightarrow> string \<Rightarrow> int \<Rightarrow> int
     \<Rightarrow> (int \<times> int) list \<Rightarrow> db" where
  "create_event d g_user title' description' event_date' start_time' end_time'
       expected_attendees' venue_id' resource_requests =
     (let event_id = lastrowid (map e_id (events d));
          d1 = d\<lparr>events := events d @
                 [\<lparr>e_id = event_id, title = title', description = description',
                   event_date = event_date', start_time = start_time', end_time = end_time',
                   expected_attendees = expected_attendees', venue_id = venue_id',
                   status = ''pending_hod'', current_approver_role = ''hod'',
                   created_by = u_id g_user, rejection_reason = []\<rparr>]\<rparr>;
          d2 = reserve_resources event_id resource_requests d1
      in case find (\<lambda>u. u_role u = ''hod'') (users d2) of
           None \<Rightarrow> d2
         | Some hod \<Rightarrow>
             notify (u_id hod) (''New event '' @ quoted title' @ '' requires your approval.'') d2)"

definition new_event :: "db \<Rightarrow> int option \<Rightarrow> http_method \<Rightarrow> form \<Rightarrow> response \<times> db" where
  "new_event d session method fm =
     (if \<not> login_required session then (Flashed PleaseLogIn LoginPage, d)
      else case load_user d session of
        None \<Rightarrow> (Flashed NoPermission Dashboard, d)
      | Some g_user \<Rightarrow>
      if \<not> role_required [''coordinator''] (Some g_user)
      then (Flashed NoPermission Dashboard, d)
      else if method \<noteq> POST then (Plain NewEventForm, d)
      else
        let title' = strip (f_title fm);
            description' = strip (f_description fm);
            event_date' = strip (f_event_date fm);
            start_time' = strip (f_start_time fm);
            end_time' = strip (f_end_time fm)
        in
        case f_expected_attendees fm of None \<Rightarrow> (Raised ValueError, d)
        | Some expected_attendees' \<Rightarrow>
        case f_venue_id fm of None \<Rightarrow> (Raised ValueError, d)
        | Some venue_id' \<Rightarrow>
        if title' = [] \<or> event_date' = [] \<or> start_time' = [] \<or> end_time' = [] \<or> venue_id' = 0
        then (Flashed FillRequired NewEventForm, d)
        else
        case find (\<lambda>v. v_id v = venue_id') (venues d) of
          None \<Rightarrow> (Flashed VenueMissing NewEventForm, d)
        | Some venue \<Rightarrow>
        if expected_attendees' > capacity venue
        then (Flashed (CapacityExceeded (v_name venue) (capacity venue) expected_attendees')
                NewEventForm, d)
        else
        case find (conflicts venue_id' event_date' start_time' end_time') (events d) of
          Some conflict \<Rightarrow>
            (Flashed (TimeSlotConflict (v_name venue) event_date'
               (start_time conflict) (end_time conflict) (title conflict)) NewEventForm, d)
        | None \<Rightarrow>
        case resource_validation (f_resource fm) (sort_key r_name (resources d)) of
          Inl r \<Rightarrow> (r, d)
        | Inr resource_requests \<Rightarrow>
            (Flashed Submitted Dashboard,
             create_event d g_user title' description' event_date' start_time' end_time'
               expected_attendees' venue_id' resource_requests))"

subsection \<open>approve_event, reject_event, complete_event\<close>

definition set_status :: "int \<Rightarrow> (event \<Rightarrow> event) \<Rightarrow> db \<Rightarrow> db" where
  "set_status event_id upd d =
     d\<lparr>events := map (\<lambda>e. if e_id e = event_id then upd e else e) (events d)\<rparr>"

definition approve_event :: "db \<Rightarrow> int option \<Rightarrow> int \<Rightarrow> string \<Rightarrow> response \<times> db" where
  "approve_event d session event_id comment_field =
     (if \<not> login_required session then (Flashed PleaseLogIn LoginPage, d)
      else case load_user d session of
        None \<Rightarrow> (Flashed NoPermission Dashboard, d)
      | Some g_user \<Rightarrow>
      if \<not> role_required [''hod'', ''dean'', ''head''] (Some g_user)
      then (Flashed NoPermission Dashboard, d)
      else
      case find (\<lambda>e. e_id e = event_id) (events d) of
        None \<Rightarrow> (Abort404, d)
      | Some ev \<Rightarrow>
      let expected_status = ''pending_'' @ u_role g_user in
      if status ev \<noteq> expected_status
      then (Flashed NotCurrentApprover (EventDetail event_id), d)
      else
      let comment' = strip comment_field in
      case APPROVAL_FLOW (status ev) of
        None \<Rightarrow> (Raised KeyError, d)
      | Some flow \<Rightarrow>
      let next_status = snd flow;
          next_role = (case APPROVAL_FLOW next_status of None \<Rightarrow> [] | Some f \<Rightarrow> fst f);
          d1 = d\<lparr>approvals := approvals d @
                 [\<lparr>a_event_id = event_id, approver_id = u_id g_user, a_role = u_role g_user,
                   a_action = ''approved'', a_comment = comment'\<rparr>]\<rparr>;
          d2 = set_status event_id
                 (\<lambda>e. e\<lparr>status := next_status, current_approver_role := next_role\<rparr>) d1;
          d3 = (if next_status = ''approved''
                then notify (created_by ev)
                       (''Your event '' @ quoted (title ev) @ '' has been fully approved!'') d2
                else case find (\<lambda>u. u_role u = next_role) (users d2) of
                       None \<Rightarrow> d2
                     | Some next_user \<Rightarrow>
                         notify (u_id next_user)
                           (''Event '' @ quoted (title ev) @ '' requires your approval.'') d2)
      in (Flashed (Approved next_status) Dashboard, d3))"

text \<open>
  The release loop shared by \<^verbatim>\<open>reject_event\<close> and \<^verbatim>\<open>complete_event\<close>: every hold row of the
  event is added back to its resource, with no bound checked.
\<close>

definition credit :: "event_resource \<Rightarrow> resource \<Rightarrow> resource" where
  "credit r res =
     (if r_id res = er_resource_id r
      then res\<lparr>available_quantity := available_quantity res + quantity_requested r\<rparr>
      else res)"

fun release_loop :: "event_resource list \<Rightarrow> resource list \<Rightarrow> resource list" where
  "release_loop [] rs = rs"
| "release_loop (r # reserved) rs = release_loop reserved (map (credit r) rs)"

definition release_resources :: "int \<Rightarrow> db \<Rightarrow> db" where
  "release_resources event_id d =
     (let reserved = filter (\<lambda>er. er_event_id er = event_id) (event_resources d)
      in d\<lparr>resources := release_loop reserved (resources d)\<rparr>)"

definition reject_event :: "db \<Rightarrow> int option \<Rightarrow> int \<Rightarrow> string \<Rightarrow> response \<times> db" where
  "reject_event d session event_id reason_field =
     (if \<not> login_required session then (Flashed PleaseLogIn LoginPage, d)
      else case load_user d session of
        None \<Rightarrow> (Flashed NoPermission Dashboard, d)
      | Some g_user \<Rightarrow>
      if \<not> role_required [''hod'', ''dean'', ''head''] (Some g_user)
      then (Flashed NoPermission Dashboard, d)
      else
      case find (\<lambda>e. e_id e = event_id) (events d) of
        None \<Rightarrow> (Abort404, d)
      | Some ev \<Rightarrow>
      let expected_status = ''pending_'' @ u_role g_user in
      if status ev \<noteq> expected_status
      then (Flashed NotCurrentApprover (EventDetail event_id), d)
      else
      let reason = strip reason_field in
      if reason = [] then (Flashed ReasonRequired (EventDetail event_id), d)
      else
      let d1 = d\<lparr>approvals := approvals d @
                 [\<lparr>a_event_id = event_id, approver_id = u_id g_user, a_role = u_role g_user,
                   a_action = ''rejected'', a_comment = reason\<rparr>]\<rparr>;
          d2 = set_status event_id
                 (\<lambda>e. e\<lparr>status := ''rejected'', rejection_reason := reason,
                        current_approver_role := []\<rparr>) d1;
          d3 = release_resources event_id d2
      in
      case ROLE_LABELS (u_role g_user) of
        None \<Rightarrow> (Raised KeyError, d)
      | Some label \<Rightarrow>
          (Flashed Rejected Dashboard,
           notify (created_by ev)
             (''Your event '' @ quoted (title ev) @ '' was rejected by '' @ label
                @ ''. Reason: '' @ reason) d3))"

definition complete_event :: "db \<Rightarrow> int option \<Rightarrow> int \<Rightarrow> response \<times> db" where
  "complete_event d session event_id =
     (if \<not> login_required session then (Flashed PleaseLogIn LoginPage, d)
      else case load_user d session of
        None \<Rightarrow> (Flashed NoPermission Dashboard, d)
      | Some g_user \<Rightarrow>
      if \<not> role_required [''coordinator''] (Some g_user)
      then (Flashed NoPermission Dashboard, d)
      else
      case find (\<lambda>e. e_id e = event_id) (events d) of
        None \<Rightarrow> (Abort404, d)
      | Some ev \<Rightarrow>
      if status ev \<noteq> ''approved'' \<or> created_by ev \<noteq> u_id g_user
      then (Flashed CannotComplete (EventDetail event_id), d)
      else
      let d1 = set_status event_id
                 (\<lambda>e. e\<lparr>status := ''completed'', current_approver_role := []\<rparr>) d;
          d2 = release_resources event_id d1
      in (Flashed Completed Dashboard, d2))"

subsection \<open>Sequences of operations\<close>

datatype request =
    NewEvent "int option" http_method form
  | ApproveEvent "int option" int string
  | RejectEvent "int option" int string
  | CompleteEvent "int option" int

fun step :: "db \<Rightarrow> request \<Rightarrow> response \<times> db" where
  "step d (NewEvent session method fm) = new_event d session method fm"
| "step d (ApproveEvent session event_id comment_field) = approve_event d session event_id comment_field"
| "step d (RejectEvent session event_id reason_field) = reject_event d session event_id reason_field"
| "step d (CompleteEvent session event_id) = complete_event d session event_id"

text \<open>
  \<open>run\<close> serves the requests one at a time: each handler starts on the store the previous
  one has committed. It says nothing of requests that overlap.
\<close>

fun run :: "db \<Rightarrow> request list \<Rightarrow> db" where
  "run d [] = d"
| "run d (rq # rqs) = run (snd (step d rq)) rqs"

subsection \<open>Requests that overlap\<close>

text \<open>
  \<^verbatim>\<open>get_db\<close> opens a connection per request, and no handler opens a transaction before it
  reads: the SELECT of the booking and the tests on its status run first, the first INSERT
  opens the transaction, and no UPDATE tests the status again. So a handler falls into two
  halves that the store may separate: the checks (\<^verbatim>\<open>reject_event\<close> up to the test of the
  reason, \<^verbatim>\<open>complete_event\<close> up to the test of status and owner), which keep the values the
  handler holds in its variables, and the writes up to \<^verbatim>\<open>db.commit()\<close>, which run on the store
  as it is by then. \<open>overlapping_rejects\<close> and \<open>overlapping_completes\<close> are two requests on
  one booking of which both have run their checks before either writes; the writes
  themselves run one after the other, as the lock of the database makes them.
\<close>

definition reject_checks ::
  "db \<Rightarrow> int option \<Rightarrow> int \<Rightarrow> string \<Rightarrow> response + (user \<times> event \<times> string)" where
  "reject_checks d session event_id reason_field =
     (if \<not> login_required session then Inl (Flashed PleaseLogIn LoginPage)
      else case load_user d session of
        None \<Rightarrow> Inl (Flashed NoPermission Dashboard)
      | Some g_user \<Rightarrow>
      if \<not> role_required [''hod'', ''dean'', ''head''] (Some g_user)
      then Inl (Flashed NoPermission Dashboard)
      else
      case find (\<lambda>e. e_id e = event_id) (events d) of
        None \<Rightarrow> Inl Abort404
      | Some ev \<Rightarrow>
      let expected_status = ''pending_'' @ u_role g_user in
      if status ev \<noteq> expected_status
      then Inl (Flashed NotCurrentApprover (EventDetail event_id))
      else
      let reason = strip reason_field in
      if reason = [] then Inl (Flashed ReasonRequired (EventDetail event_id))
      else Inr (g_user, ev, reason))"

definition reject_writes :: "int \<Rightarrow> user \<times> event \<times> string \<Rightarrow> db \<Rightarrow> response \<times> db" where
  "reject_writes event_id held_values d =
     (case held_values of (g_user, ev, reason) \<Rightarrow>
      let d1 = d\<lparr>approvals := approvals d @
                 [\<lparr>a_event_id = event_id, approver_id = u_id g_user, a_role = u_role g_user,
                   a_action = ''rejected'', a_comment = reason\<rparr>]\<rparr>;
          d2 = set_status event_id
                 (\<lambda>e. e\<lparr>status := ''rejected'', rejection_reason := reason,
                        current_approver_role := []\<rparr>) d1;
          d3 = release_resources event_id d2
      in
      case ROLE_LABELS (u_role g_user) of
        None \<Rightarrow> (Raised KeyError, d)
      | Some label \<Rightarrow>
          (Flashed Rejected Dashboard,
           notify (created_by ev)
             (''Your event '' @ quoted (title ev) @ '' was rejected by '' @ label
                @ ''. Reason: '' @ reason) d3))"

definition overlapping_rejects ::
  "db \<Rightarrow> int \<Rightarrow> int option \<Rightarrow> string \<Rightarrow> int option \<Rightarrow> string \<Rightarrow> response \<times> response \<times> db" where
  "overlapping_rejects d event_id session1 reason1 session2 reason2 =
     (let checked1 = reject_checks d session1 event_id reason1;
          checked2 = reject_checks d session2 event_id reason2;
          answer1 = (case checked1 of Inl r \<Rightarrow> (r, d) | Inr t \<Rightarrow> reject_writes event_id t d);
          answer2 = (case checked2 of Inl r \<Rightarrow> (r, snd answer1)
                     | Inr t \<Rightarrow> reject_writes event_id t (snd answer1))
      in (fst answer1, fst answer2, snd answer2))"

definition complete_checks :: "db \<Rightarrow> int option \<Rightarrow> int \<Rightarrow> response + unit" where
  "complete_checks d session event_id =
     (if \<not> login_required session then Inl (Flashed PleaseLogIn LoginPage)
      else case load_user d session of
        None \<Rightarrow> Inl (Flashed NoPermission Dashboard)
      | Some g_user \<Rightarrow>
      if \<not> role_required [''coordinator''] (Some g_user)
      then Inl (Flashed NoPermission Dashboard)
      else
      case find (\<lambda>e. e_id e = event_id) (events d) of
        None \<Rightarrow> Inl Abort404
      | Some ev \<Rightarrow>
      if status ev \<noteq> ''approved'' \<or> created_by ev \<noteq> u_id g_user
      then Inl (Flashed CannotComplete (EventDetail event_id))
      else Inr ())"

definition complete_writes :: "int \<Rightarrow> db \<Rightarrow> response \<times> db" where
  "complete_writes event_id d =
     (let d1 = set_status event_id
                 (\<lambda>e. e\<lparr>status := ''completed'', current_approver_role := []\<rparr>) d;
          d2 = release_resources event_id d1
      in (Flashed Completed Dashboard, d2))"


section \<open>The ledger invariant and the lifecycle of holds\<close>

text \<open>
  A booking is over when its status is rejected or completed. A hold row is outstanding
  while its booking is not over; the ledger invariant says that what is available of a
  resource and what is outstanding on it add up to its total.
\<close>

definition terminal :: "string \<Rightarrow> bool" where
  "terminal s = (s \<in> {''rejected'', ''completed''})"

definition status_of :: "db \<Rightarrow> int \<Rightarrow> string option" where
  "status_of d b = map_option status (find (\<lambda>e. e_id e = b) (events d))"

definition outstanding :: "db \<Rightarrow> event_resource \<Rightarrow> bool" where
  "outstanding d er =
     (case status_of d (er_event_id er) of None \<Rightarrow> False | Some s \<Rightarrow> \<not> terminal s)"

definition outstanding_holds :: "db \<Rightarrow> int \<Rightarrow> int" where
  "outstanding_holds d rid =
     sum_list (map quantity_requested
       (filter (\<lambda>er. er_resource_id er = rid \<and> outstanding d er) (event_resources d)))"

definition ledger_inv :: "db \<Rightarrow> bool" where
  "ledger_inv d =
     (\<forall>r\<in>set (resources d). available_quantity r + outstanding_holds d (r_id r) = total_quantity r)"

definition holds_have_events :: "db \<Rightarrow> bool" where
  "holds_have_events d =
     (\<forall>er\<in>set (event_resources d). er_event_id er \<in> set (map e_id (events d)))"

definition held :: "event_resource list \<Rightarrow> int \<Rightarrow> int" where
  "held reserved rid =
     sum_list (map quantity_requested (filter (\<lambda>er. er_resource_id er = rid) reserved))"

definition requested :: "(int \<times> int) list \<Rightarrow> int \<Rightarrow> int" where
  "requested reqs rid = sum_list (map snd (filter (\<lambda>p. fst p = rid) reqs))"

definition hold_row :: "int \<Rightarrow> int \<times> int \<Rightarrow> event_resource" where
  "hold_row event_id p = \<lparr>er_event_id = event_id, er_resource_id = fst p, quantity_requested = snd p\<rparr>"

definition approve_result :: "db \<Rightarrow> user \<Rightarrow> event \<Rightarrow> int \<Rightarrow> string \<Rightarrow> string \<Rightarrow> string \<Rightarrow> db" where
  "approve_result d u ev eid c nx nr =
     (let d2 = d\<lparr>approvals := approvals d @
                 [\<lparr>a_event_id = eid, approver_id = u_id u, a_role = u_role u,
                   a_action = ''approved'', a_comment = strip c\<rparr>],
                events := map (\<lambda>e. if e_id e = eid
                               then e\<lparr>status := nx, current_approver_role := nr\<rparr> else e) (events d)\<rparr>
      in if nx = ''approved''
         then notify (created_by ev)
                (''Your event '' @ quoted (title ev) @ '' has been fully approved!'') d2
         else case find (\<lambda>u. u_role u = nr) (users d) of
                None \<Rightarrow> d2
              | Some next_user \<Rightarrow>
                  notify (u_id next_user)
                    (''Event '' @ quoted (title ev) @ '' requires your approval.'') d2)"

definition reject_result :: "db \<Rightarrow> user \<Rightarrow> event \<Rightarrow> int \<Rightarrow> string \<Rightarrow> string \<Rightarrow> db" where
  "reject_result d u ev eid reason label =
     d\<lparr>approvals := approvals d @
          [\<lparr>a_event_id = eid, approver_id = u_id u, a_role = u_role u,
            a_action = ''rejected'', a_comment = reason\<rparr>],
       events := map (\<lambda>e. if e_id e = eid
                      then e\<lparr>status := ''rejected'', rejection_reason := reason,
                             current_approver_role := []\<rparr> else e) (events d),
       resources := map (\<lambda>r. r\<lparr>available_quantity := available_quantity r +
                          held (filter (\<lambda>er. er_event_id er = eid) (event_resources d)) (r_id r)\<rparr>)
                      (resources d),
       notifications := notifications d @
          [\<lparr>n_user_id = created_by ev,
            n_message = ''Your event '' @ quoted (title ev) @ '' was rejected by '' @ label
                @ ''. Reason: '' @ reason,
            is_read = 0\<rparr>]\<rparr>"

definition complete_result :: "db \<Rightarrow> int \<Rightarrow> db" where
  "complete_result d eid =
     d\<lparr>events := map (\<lambda>e. if e_id e = eid
                      then e\<lparr>status := ''completed'', current_approver_role := []\<rparr> else e) (events d),
       resources := map (\<lambda>r. r\<lparr>available_quantity := available_quantity r +
                          held (filter (\<lambda>er. er_event_id er = eid) (event_resources d)) (r_id r)\<rparr>)
                      (resources d)\<rparr>"

definition consistent :: "db \<Rightarrow> bool" where
  "consistent d = (holds_have_events d \<and> ledger_inv d)"

definition init_db :: db where
  "init_db =
     \<lparr>users =
        [\<lparr>u_id = 1, username = ''coordinator'', full_name = ''Alice Coordinator'',
          u_role = ''coordinator'', department = ''Computer Science''\<rparr>,
         \<lparr>u_id = 2, username = ''hod'', full_name = ''Bob HOD'',
          u_role = ''hod'', department = ''Computer Science''\<rparr>,
         \<lparr>u_id = 3, username = ''dean'', full_name = ''Carol Dean'',
          u_role = ''dean'', department = ''Engineering''\<rparr>,
         \<lparr>u_id = 4, username = ''head'', full_name = ''David Head'',
          u_role = ''head'', department = ''Institution''\<rparr>,
         \<lparr>u_id = 5, username = ''admin'', full_name = ''Eve Admin'',
          u_role = ''admin'', department = ''ITC''\<rparr>],
      venues =
        [\<lparr>v_id = 1, v_name = ''Main Auditorium'', capacity = 500, location = ''Block A, Ground Floor''\<rparr>,
         \<lparr>v_id = 2, v_name = ''Seminar Hall 1'', capacity = 100, location = ''Block B, First Floor''\<rparr>,
         \<lparr>v_id = 3, v_name = ''Conference Room'', capacity = 30, location = ''Block C, Second Floor''\<rparr>],
      resources =
        [\<lparr>r_id = 1, r_name = ''Projector'', total_quantity = 5, available_quantity = 5\<rparr>,
         \<lparr>r_id = 2, r_name = ''Microphone'', total_quantity = 10, available_quantity = 10\<rparr>,
         \<lparr>r_id = 3, r_name = ''Laptop'', total_quantity = 8, available_quantity = 8\<rparr>,
         \<lparr>r_id = 4, r_name = ''Whiteboard'', total_quantity = 15, available_quantity = 15\<rparr>],
      events = [], event_resources = [], approvals = [], notifications = []\<rparr>"

definition talk :: form where
  "talk =
     \<lparr>f_title = ''Tech Talk'', f_description = ''Guest lecture'', f_event_date = ''2024-05-01'',
       f_start_time = ''10:00'', f_end_time = ''12:00'',
       f_expected_attendees = Some 50, f_venue_id = Some 2,
       f_resource = (\<lambda>i. if i = 1 then Some 2 else if i = 2 then Some 3 else Some 0)\<rparr>"

definition submitted :: db where
  "submitted = run init_db [NewEvent (Some 1) POST talk]"

definition at_dean :: db where
  "at_dean = run init_db [NewEvent (Some 1) POST talk, ApproveEvent (Some 2) 1 ''fine'']"

definition fully_approved :: db where
  "fully_approved = run init_db [NewEvent (Some 1) POST talk, ApproveEvent (Some 2) 1 ''fine'',
       ApproveEvent (Some 3) 1 [], ApproveEvent (Some 4) 1 []]"

definition reversed :: form where
  "reversed = talk\<lparr>f_start_time := ''12:00'', f_end_time := ''10:00''\<rparr>"

definition validation :: "db \<Rightarrow> user \<Rightarrow> form \<Rightarrow> int \<Rightarrow> int \<Rightarrow> response \<times> db" where
  "validation d g_user fm n vid =
     (case find (\<lambda>v. v_id v = vid) (venues d) of
        None \<Rightarrow> (Flashed VenueMissing NewEventForm, d)
      | Some venue \<Rightarrow>
      if n > capacity venue
      then (Flashed (CapacityExceeded (v_name venue) (capacity venue) n) NewEventForm, d)
      else
      case find (conflicts vid (strip (f_event_date fm)) (strip (f_start_time fm))
                   (strip (f_end_time fm))) (events d) of
        Some conflict \<Rightarrow>
          (Flashed (TimeSlotConflict (v_name venue) (strip (f_event_date fm))
             (start_time conflict) (end_time conflict) (title conflict)) NewEventForm, d)
      | None \<Rightarrow>
      case resource_validation (f_resource fm) (sort_key r_name (resources d)) of
        Inl r \<Rightarrow> (r, d)
      | Inr resource_requests \<Rightarrow>
          (Flashed Submitted Dashboard,
           create_event d g_user (strip (f_title fm)) (strip (f_description fm))
             (strip (f_event_date fm)) (strip (f_start_time fm)) (strip (f_end_time fm))
             n vid resource_requests))"

definition reaches_validation ::
  "db \<Rightarrow> int option \<Rightarrow> http_method \<Rightarrow> form \<Rightarrow> user \<Rightarrow> int \<Rightarrow> int \<Rightarrow> bool" where
  "reaches_validation d s m fm u n vid =
     (load_user d s = Some u \<and> u_role u = ''coordinator'' \<and> m = POST \<and>
      f_expected_attendees fm = Some n \<and> f_venue_id fm = Some vid \<and> vid \<noteq> 0 \<and>
      strip (f_title fm) \<noteq> [] \<and> strip (f_event_date fm) \<noteq> [] \<and>
      strip (f_start_time fm) \<noteq> [] \<and> strip (f_end_time fm) \<noteq> [])"

definition overlapping_talk :: form where
  "overlapping_talk = talk\<lparr>f_title := ''Workshop'', f_start_time := ''11:00'', f_end_time := ''13:00''\<rparr>"

definition crowded_talk :: form where
  "crowded_talk = overlapping_talk\<lparr>f_expected_attendees := Some 150\<rparr>"

definition greedy_talk :: form where
  "greedy_talk = crowded_talk\<lparr>f_resource := (\<lambda>i. Some 99)\<rparr>"

text \<open>
  The release loop runs in two places only, after the UPDATE of the status in
  \<^verbatim>\<open>reject_event\<close> and in \<^verbatim>\<open>complete_event\<close>, on the path that ends with the flash of
  success. So a request credits the holds of booking \<open>b\<close> when it is a reject or a complete
  of \<open>b\<close> that answers so; \<open>credit_count\<close> counts the credits to \<open>b\<close> along a run, and a
  booking is \<open>over\<close> when it is rejected or completed.
\<close>

fun credits :: "db \<Rightarrow> request \<Rightarrow> int \<Rightarrow> bool" where
  "credits d (RejectEvent session event_id reason_field) b =
     (b = event_id \<and> fst (reject_event d session event_id reason_field) = Flashed Rejected Dashboard)"
| "credits d (CompleteEvent session event_id) b =
     (b = event_id \<and> fst (complete_event d session event_id) = Flashed Completed Dashboard)"
| "credits d (NewEvent session method fm) b = False"
| "credits d (ApproveEvent session event_id comment_field) b = False"

fun credit_count :: "db \<Rightarrow> request list \<Rightarrow> int \<Rightarrow> nat" where
  "credit_count d [] b = 0"
| "credit_count d (rq # rqs) b =
     (if credits d rq b then 1 else 0) + credit_count (snd (step d rq)) rqs b"

definition over :: "db \<Rightarrow> int \<Rightarrow> bool" where
  "over d b = (case status_of d b of None \<Rightarrow> False | Some s \<Rightarrow> terminal s)"

section \<open>Properties\<close>

subsection \<open>The loops in closed form\<close>

lemma release_loop_eq:
  "release_loop reserved rs =
     map (\<lambda>r. r\<lparr>available_quantity := available_quantity r + held reserved (r_id r)\<rparr>) rs"
proof (induction reserved arbitrary: rs)
  case Nil
  show ?case by (simp add: held_def)
next
  case (Cons a reserved)
  show ?case
    by (simp add: Cons.IH held_def credit_def o_def cong: map_cong)
qed

lemma reserve_resources_frame:
  "users (reserve_resources i reqs d) = users d"
  "venues (reserve_resources i reqs d) = venues d"
  "events (reserve_resources i reqs d) = events d"
  "approvals (reserve_resources i reqs d) = approvals d"
  "notifications (reserve_resources i reqs d) = notifications d"
  by (induction i reqs d rule: reserve_resources.induct) simp_all

lemma reserve_resources_holds:
  "event_resources (reserve_resources i reqs d) = event_resources d @ map (hold_row i) reqs"
  by (induction i reqs d rule: reserve_resources.induct) (simp_all add: hold_row_def)

lemma reserve_resources_stock:
  "resources (reserve_resources i reqs d) =
     map (\<lambda>r. r\<lparr>available_quantity := available_quantity r - requested reqs (r_id r)\<rparr>) (resources d)"
proof (induction i reqs d rule: reserve_resources.induct)
  case (1 event_id d)
  show ?case by (simp add: requested_def)
next
  case (2 event_id res_id qty rest d)
  have "resources (reserve_resources event_id ((res_id, qty) # rest) d) =
          map (\<lambda>r. r\<lparr>available_quantity := available_quantity r - requested rest (r_id r)\<rparr>)
            (map (debit res_id qty) (resources d))"
    by (simp add: 2)
  also have "\<dots> = map (\<lambda>r. r\<lparr>available_quantity :=
                       available_quantity r - requested ((res_id, qty) # rest) (r_id r)\<rparr>) (resources d)"
    by (auto simp: debit_def requested_def)
  finally show ?case .
qed

lemma find_keyed_map:
  assumes "\<And>e. key (f e) = key e"
  shows "find (\<lambda>e. key e = b) (map f es) = map_option f (find (\<lambda>e. key e = b) es)"
  using assms by (induction es) simp_all

lemma find_append_eq:
  "find P (xs @ ys) = (case find P xs of None \<Rightarrow> find P ys | Some x \<Rightarrow> Some x)"
  by (induction xs) simp_all

lemma fold_max_ge_init: "(a::int) \<le> fold max ids a"
proof (induction ids arbitrary: a)
  case Nil
  show ?case by simp
next
  case (Cons x xs)
  have "a \<le> max x a" by simp
  also have "\<dots> \<le> fold max xs (max x a)" by (rule Cons.IH)
  finally show ?case by simp
qed

lemma fold_max_ge_elem: "i \<in> set ids \<Longrightarrow> (i::int) \<le> fold max ids a"
proof (induction ids arbitrary: a)
  case Nil
  then show ?case by simp
next
  case (Cons x xs)
  show ?case
  proof (cases "i = x")
    case True
    have "x \<le> max x a" by simp
    also have "\<dots> \<le> fold max xs (max x a)" by (rule fold_max_ge_init)
    finally show ?thesis using True by simp
  next
    case False
    then have "i \<in> set xs" using Cons.prems by simp
    then show ?thesis using Cons.IH by simp
  qed
qed

lemma lastrowid_fresh: "i \<in> set ids \<Longrightarrow> i < lastrowid ids"
  using fold_max_ge_elem[of i ids 0] by (simp add: lastrowid_def)

lemma load_user_Some_session: "load_user d s = Some u \<Longrightarrow> login_required s"
  by (cases s) (simp_all add: load_user_def login_required_def)

lemma approve_event_done:
  assumes u: "load_user d s = Some u"
    and r: "role_required [''hod'', ''dean'', ''head''] (Some u)"
    and ev: "find (\<lambda>e. e_id e = eid) (events d) = Some ev"
    and st: "status ev = ''pending_'' @ u_role u"
    and fl: "APPROVAL_FLOW (status ev) = Some (rr, nx)"
    and nr: "nr = (case APPROVAL_FLOW nx of None \<Rightarrow> [] | Some f \<Rightarrow> fst f)"
  shows "approve_event d s eid c = (Flashed (Approved nx) Dashboard, approve_result d u ev eid c nx nr)"
proof -
  have lg: "login_required s" using u by (rule load_user_Some_session)
  show ?thesis
    unfolding approve_event_def approve_result_def
    apply (simp only: lg u r ev fl Let_def option.case if_False if_True
        not_True_eq_False simp_thms snd_conv fst_conv flip: st nr)
    apply (auto simp: set_status_def split: option.splits)
    done
qed

lemma role_label:
  "role_required [''hod'', ''dean'', ''head''] (Some u) \<Longrightarrow> \<exists>l. ROLE_LABELS (u_role u) = Some l"
  by (auto simp: role_required_def ROLE_LABELS_def)

lemma reject_event_done:
  assumes u: "load_user d s = Some u"
    and r: "role_required [''hod'', ''dean'', ''head''] (Some u)"
    and ev: "find (\<lambda>e. e_id e = eid) (events d) = Some ev"
    and st: "status ev = ''pending_'' @ u_role u"
    and rs: "strip c \<noteq> []"
    and lb: "ROLE_LABELS (u_role u) = Some label"
  shows "reject_event d s eid c = (Flashed Rejected Dashboard, reject_result d u ev eid (strip c) label)"
proof -
  have lg: "login_required s" using u by (rule load_user_Some_session)
  show ?thesis
    unfolding reject_event_def reject_result_def
    apply (simp only: lg u r ev lb rs Let_def option.case if_False if_True
        not_True_eq_False simp_thms snd_conv fst_conv flip: st)
    apply (simp add: set_status_def release_resources_def release_loop_eq notify_def)
    done
qed

lemma complete_event_done:
  assumes u: "load_user d s = Some u"
    and r: "role_required [''coordinator''] (Some u)"
    and ev: "find (\<lambda>e. e_id e = eid) (events d) = Some ev"
    and st: "status ev = ''approved''"
    and ow: "created_by ev = u_id u"
  shows "complete_event d s eid = (Flashed Completed Dashboard, complete_result d eid)"
proof -
  have lg: "login_required s" using u by (rule load_user_Some_session)
  show ?thesis
    unfolding complete_event_def complete_result_def
    apply (simp only: lg u r ev st ow Let_def option.case if_False if_True
        not_True_eq_False simp_thms snd_conv fst_conv)
    apply (simp add: set_status_def release_resources_def release_loop_eq)
    done
qed

lemma complete_event_refused:
  assumes "\<not> (\<exists>u ev. load_user d s = Some u \<and> role_required [''coordinator''] (Some u)
            \<and> find (\<lambda>e. e_id e = eid) (events d) = Some ev
            \<and> status ev = ''approved'' \<and> created_by ev = u_id u)"
  shows "snd (complete_event d s eid) = d"
  using assms unfolding complete_event_def
  by (auto simp: Let_def split: option.splits)

lemma approve_event_refused:
  assumes "\<not> (\<exists>u ev. load_user d s = Some u \<and> role_required [''hod'', ''dean'', ''head''] (Some u)
            \<and> find (\<lambda>e. e_id e = eid) (events d) = Some ev
            \<and> status ev = ''pending_'' @ u_role u)"
  shows "snd (approve_event d s eid c) = d"
  using assms unfolding approve_event_def
  by (auto simp: Let_def split: option.splits)

lemma reject_event_refused:
  assumes "\<not> (\<exists>u ev. load_user d s = Some u \<and> role_required [''hod'', ''dean'', ''head''] (Some u)
            \<and> find (\<lambda>e. e_id e = eid) (events d) = Some ev
            \<and> status ev = ''pending_'' @ u_role u \<and> strip c \<noteq> [])"
  shows "snd (reject_event d s eid c) = d"
  using assms unfolding reject_event_def
  by (auto simp: Let_def split: option.splits)

lemma resource_validation_Inl:
  "resource_validation q rs = Inl r \<Longrightarrow>
     r = Raised ValueError \<or> (\<exists>n a k. r = Flashed (InsufficientStock n a k) NewEventForm)"
  by (induction rs) (auto split: option.splits if_splits sum.splits)

lemma resource_validation_Inr:
  "resource_validation q rs = Inr reqs \<Longrightarrow>
     (\<forall>res\<in>set rs. \<exists>k. q (r_id res) = Some k \<and> (0 < k \<longrightarrow> k \<le> available_quantity res)) \<and>
     (\<forall>p\<in>set reqs. 0 < snd p)"
  by (induction rs arbitrary: reqs) (auto split: option.splits if_splits sum.splits)

lemma resource_validation_short:
  "\<forall>res\<in>set rs. q (r_id res) \<noteq> None \<Longrightarrow>
   \<exists>res\<in>set rs. \<exists>k. q (r_id res) = Some k \<and> 0 < k \<and> available_quantity res < k \<Longrightarrow>
   \<exists>n a k. resource_validation q rs = Inl (Flashed (InsufficientStock n a k) NewEventForm)"
proof (induction rs)
  case Nil
  then show ?case by simp
next
  case (Cons x rs)
  from Cons.prems(1) obtain y where y: "q (r_id x) = Some y" by auto
  show ?case
  proof (cases "0 < y \<and> available_quantity x < y")
    case True
    then show ?thesis using y by simp
  next
    case False
    with Cons.prems(2) y
    have "\<exists>res\<in>set rs. \<exists>k. q (r_id res) = Some k \<and> 0 < k \<and> available_quantity res < k"
      by auto
    moreover have "\<forall>res\<in>set rs. q (r_id res) \<noteq> None" using Cons.prems(1) by simp
    ultimately obtain n a k where
      "resource_validation q rs = Inl (Flashed (InsufficientStock n a k) NewEventForm)"
      using Cons.IH by blast
    then show ?thesis using y False by auto
  qed
qed

lemma create_event_frame:
  "users (create_event d u t ds dt st en n vid reqs) = users d"
  "venues (create_event d u t ds dt st en n vid reqs) = venues d"
  "approvals (create_event d u t ds dt st en n vid reqs) = approvals d"
  by (simp_all add: create_event_def Let_def reserve_resources_frame notify_def split: option.splits)

lemma create_event_events:
  "events (create_event d u t ds dt st en n vid reqs) = events d @
     [\<lparr>e_id = lastrowid (map e_id (events d)), title = t, description = ds, event_date = dt,
       start_time = st, end_time = en, expected_attendees = n, venue_id = vid,
       status = ''pending_hod'', current_approver_role = ''hod'',
       created_by = u_id u, rejection_reason = []\<rparr>]"
  by (simp add: create_event_def Let_def reserve_resources_frame notify_def split: option.splits)

lemma create_event_holds:
  "event_resources (create_event d u t ds dt st en n vid reqs) =
     event_resources d @ map (hold_row (lastrowid (map e_id (events d)))) reqs"
  by (simp add: create_event_def Let_def reserve_resources_holds notify_def split: option.splits)

lemma create_event_stock:
  "resources (create_event d u t ds dt st en n vid reqs) =
     map (\<lambda>r. r\<lparr>available_quantity := available_quantity r - requested reqs (r_id r)\<rparr>) (resources d)"
  by (simp add: create_event_def Let_def reserve_resources_stock notify_def split: option.splits)

lemma new_event_done:
  assumes u: "load_user d s = Some u"
    and r: "role_required [''coordinator''] (Some u)"
    and n: "f_expected_attendees fm = Some n"
    and vid: "f_venue_id fm = Some vid"
    and basics: "strip (f_title fm) \<noteq> []" "strip (f_event_date fm) \<noteq> []"
      "strip (f_start_time fm) \<noteq> []" "strip (f_end_time fm) \<noteq> []" "vid \<noteq> 0"
    and v: "find (\<lambda>v. v_id v = vid) (venues d) = Some v"
    and cap: "n \<le> capacity v"
    and free: "find (conflicts vid (strip (f_event_date fm)) (strip (f_start_time fm))
                 (strip (f_end_time fm))) (events d) = None"
    and rv: "resource_validation (f_resource fm) (sort_key r_name (resources d)) = Inr reqs"
  shows "new_event d s POST fm =
           (Flashed Submitted Dashboard,
            create_event d u (strip (f_title fm)) (strip (f_description fm))
              (strip (f_event_date fm)) (strip (f_start_time fm)) (strip (f_end_time fm))
              n vid reqs)"
proof -
  have lg: "login_required s" using u by (rule load_user_Some_session)
  have cap': "\<not> capacity v < n" using cap by simp
  show ?thesis
    unfolding new_event_def
    by (simp only: lg u r n vid basics v cap' free rv Let_def option.case sum.case if_False if_True
        not_True_eq_False simp_thms)
qed

lemma new_event_cases:
  "snd (new_event d s m fm) = d \<or>
   (\<exists>u n vid v reqs. load_user d s = Some u \<and> role_required [''coordinator''] (Some u) \<and> m = POST \<and>
      f_expected_attendees fm = Some n \<and> f_venue_id fm = Some vid \<and>
      strip (f_title fm) \<noteq> [] \<and> strip (f_event_date fm) \<noteq> [] \<and>
      strip (f_start_time fm) \<noteq> [] \<and> strip (f_end_time fm) \<noteq> [] \<and> vid \<noteq> 0 \<and>
      find (\<lambda>v. v_id v = vid) (venues d) = Some v \<and> n \<le> capacity v \<and>
      find (conflicts vid (strip (f_event_date fm)) (strip (f_start_time fm))
                 (strip (f_end_time fm))) (events d) = None \<and>
      resource_validation (f_resource fm) (sort_key r_name (resources d)) = Inr reqs)"
  unfolding new_event_def Let_def
  by (auto split: option.splits sum.splits)

lemma find_id_Some_iff: "(find (\<lambda>e. e_id e = b) es \<noteq> None) = (b \<in> set (map e_id es))"
  by (induction es) auto

lemma status_of_None_iff: "(status_of d b = None) = (b \<notin> set (map e_id (events d)))"
  using find_id_Some_iff[of b "events d"] by (auto simp: status_of_def)

lemma status_of_updated:
  assumes "events d' = map (\<lambda>e. if e_id e = eid then upd e else e) (events d)"
    and "\<And>e. e_id (upd e) = e_id e"
  shows "status_of d' b =
           (if b = eid then map_option (\<lambda>e. status (upd e)) (find (\<lambda>e. e_id e = eid) (events d))
            else status_of d b)"
proof -
  have "find (\<lambda>e. e_id e = b) (events d') =
          map_option (\<lambda>e. if e_id e = eid then upd e else e) (find (\<lambda>e. e_id e = b) (events d))"
    unfolding assms(1) by (rule find_keyed_map) (simp add: assms(2))
  moreover have "\<And>x. find (\<lambda>e. e_id e = b) (events d) = Some x \<Longrightarrow> e_id x = b"
    by (auto simp: find_Some_iff)
  ultimately show ?thesis
  proof (cases "find (\<lambda>e. e_id e = b) (events d)")
    case None
    assume "find (\<lambda>e. e_id e = b) (events d') =
          map_option (\<lambda>e. if e_id e = eid then upd e else e) (find (\<lambda>e. e_id e = b) (events d))"
    with None show ?thesis by (auto simp: status_of_def)
  next
    case (Some x)
    assume f: "find (\<lambda>e. e_id e = b) (events d') =
          map_option (\<lambda>e. if e_id e = eid then upd e else e) (find (\<lambda>e. e_id e = b) (events d))"
      and k: "\<And>x. find (\<lambda>e. e_id e = b) (events d) = Some x \<Longrightarrow> e_id x = b"
    have "e_id x = b" using k Some by simp
    then show ?thesis using f Some by (auto simp: status_of_def)
  qed
qed

lemma ids_updated:
  assumes "events d' = map (\<lambda>e. if e_id e = eid then upd e else e) (events d)"
    and "\<And>e. e_id (upd e) = e_id e"
  shows "map e_id (events d') = map e_id (events d)"
proof -
  have "map e_id (map (\<lambda>e. if e_id e = eid then upd e else e) es) = map e_id es" for es
    by (induction es) (simp_all add: assms(2))
  then show ?thesis by (simp only: assms(1))
qed

lemma holds_same:
  assumes "event_resources d' = event_resources d"
    and "\<And>b. map_option terminal (status_of d' b) = map_option terminal (status_of d b)"
  shows "outstanding_holds d' rid = outstanding_holds d rid"
proof -
  have "outstanding d' er = outstanding d er" for er
    using assms(2)[of "er_event_id er"]
    by (cases "status_of d' (er_event_id er)"; cases "status_of d (er_event_id er)")
       (auto simp: outstanding_def)
  then show ?thesis by (simp add: outstanding_holds_def assms(1))
qed

lemma sum_filter_split:
  "sum_list (map f (filter P xs)) =
     sum_list (map f (filter (\<lambda>x. P x \<and> Q x) xs)) +
     (sum_list (map f (filter (\<lambda>x. P x \<and> \<not> Q x) xs)) :: int)"
  by (induction xs) auto

lemma holds_released:
  assumes ers: "event_resources d' = event_resources d"
    and other: "\<And>b. b \<noteq> eid \<Longrightarrow> status_of d' b = status_of d b"
    and before: "status_of d eid = Some s" "\<not> terminal s"
    and after: "status_of d' eid = Some s'" "terminal s'"
  shows "outstanding_holds d rid =
           outstanding_holds d' rid +
           held (filter (\<lambda>er. er_event_id er = eid) (event_resources d)) rid"
proof -
  have a: "((er_resource_id er = rid \<and> outstanding d er) \<and> er_event_id er = eid) =
           (er_event_id er = eid \<and> er_resource_id er = rid)" for er
    using before by (auto simp: outstanding_def)
  have b: "((er_resource_id er = rid \<and> outstanding d er) \<and> er_event_id er \<noteq> eid) =
           (er_resource_id er = rid \<and> outstanding d' er)" for er
  proof (cases "er_event_id er = eid")
    case True
    then show ?thesis using after by (simp add: outstanding_def)
  next
    case False
    then show ?thesis using other[of "er_event_id er"] by (simp add: outstanding_def)
  qed
  have "outstanding_holds d rid =
          sum_list (map quantity_requested
            (filter (\<lambda>er. (er_resource_id er = rid \<and> outstanding d er) \<and> er_event_id er = eid)
               (event_resources d))) +
          sum_list (map quantity_requested
            (filter (\<lambda>er. (er_resource_id er = rid \<and> outstanding d er) \<and> er_event_id er \<noteq> eid)
               (event_resources d)))"
    unfolding outstanding_holds_def
    by (rule sum_filter_split)
  also have "\<dots> =
          sum_list (map quantity_requested
            (filter (\<lambda>er. er_event_id er = eid \<and> er_resource_id er = rid) (event_resources d))) +
          sum_list (map quantity_requested
            (filter (\<lambda>er. er_resource_id er = rid \<and> outstanding d' er) (event_resources d)))"
    by (simp only: a b)
  finally show ?thesis
    by (simp add: outstanding_holds_def held_def ers)
qed

lemma holds_added:
  assumes ev: "events d' = events d @ [row]" "e_id row = lastrowid (map e_id (events d))"
      "\<not> terminal (status row)"
    and ers: "event_resources d' = event_resources d @ map (hold_row (e_id row)) reqs"
    and fk: "holds_have_events d"
  shows "outstanding_holds d' rid = outstanding_holds d rid + requested reqs rid"
proof -
  have fresh: "e_id row \<notin> set (map e_id (events d))"
    using lastrowid_fresh[of "e_id row" "map e_id (events d)"] ev(2) by auto
  have st: "status_of d' b = (if b \<in> set (map e_id (events d)) then status_of d b
                              else if b = e_id row then Some (status row) else None)" for b
  proof (cases "b \<in> set (map e_id (events d))")
    case True
    then obtain x where "find (\<lambda>e. e_id e = b) (events d) = Some x"
      using find_id_Some_iff[of b "events d"] by auto
    then show ?thesis using True by (simp add: status_of_def ev(1) find_append_eq)
  next
    case False
    then have "find (\<lambda>e. e_id e = b) (events d) = None"
      using find_id_Some_iff[of b "events d"] by auto
    then show ?thesis using False by (auto simp: status_of_def ev(1) find_append_eq)
  qed
  have old: "outstanding d' er = outstanding d er" if "er \<in> set (event_resources d)" for er
    using fk that by (simp add: outstanding_def st holds_have_events_def)
  have new: "outstanding d' (hold_row (e_id row) p)" for p
    using fresh ev(3) by (simp add: outstanding_def st hold_row_def)
  have "outstanding_holds d' rid =
          sum_list (map quantity_requested
            (filter (\<lambda>er. er_resource_id er = rid \<and> outstanding d' er) (event_resources d))) +
          sum_list (map quantity_requested
            (filter (\<lambda>er. er_resource_id er = rid \<and> outstanding d' er)
               (map (hold_row (e_id row)) reqs)))"
    by (simp add: outstanding_holds_def ers)
  also have "filter (\<lambda>er. er_resource_id er = rid \<and> outstanding d' er) (event_resources d) =
             filter (\<lambda>er. er_resource_id er = rid \<and> outstanding d er) (event_resources d)"
    by (rule filter_cong) (simp_all add: old)
  also have "sum_list (map quantity_requested
            (filter (\<lambda>er. er_resource_id er = rid \<and> outstanding d' er)
               (map (hold_row (e_id row)) reqs))) = requested reqs rid"
  proof (induction reqs)
    case Nil
    show ?case by (simp add: requested_def)
  next
    case (Cons p reqs)
    have "er_resource_id (hold_row (e_id row) p) = fst p"
      "quantity_requested (hold_row (e_id row) p) = snd p"
      by (simp_all add: hold_row_def)
    then show ?case using Cons new[of p] by (simp add: requested_def)
  qed
  finally show ?thesis by (simp add: outstanding_holds_def)
qed

lemma flow_of_role:
  assumes "role_required [''hod'', ''dean'', ''head''] (Some u)"
  shows "\<exists>nx. APPROVAL_FLOW (''pending_'' @ u_role u) = Some (u_role u, nx) \<and>
           (u_role u = ''hod'' \<and> nx = ''pending_dean'' \<or>
            u_role u = ''dean'' \<and> nx = ''pending_head'' \<or>
            u_role u = ''head'' \<and> nx = ''approved'')"
  using assms by (auto simp: APPROVAL_FLOW_def role_required_def)

lemma approve_result_fields:
  "events (approve_result d u ev eid c nx nr) =
     map (\<lambda>e. if e_id e = eid then e\<lparr>status := nx, current_approver_role := nr\<rparr> else e) (events d)"
  "event_resources (approve_result d u ev eid c nx nr) = event_resources d"
  "resources (approve_result d u ev eid c nx nr) = resources d"
  "users (approve_result d u ev eid c nx nr) = users d"
  "venues (approve_result d u ev eid c nx nr) = venues d"
  "approvals (approve_result d u ev eid c nx nr) = approvals d @
     [\<lparr>a_event_id = eid, approver_id = u_id u, a_role = u_role u,
       a_action = ''approved'', a_comment = strip c\<rparr>]"
  by (simp_all add: approve_result_def Let_def notify_def split: option.splits)

lemma ledger_inv_same:
  assumes "ledger_inv d" "resources d' = resources d"
    "\<And>rid. outstanding_holds d' rid = outstanding_holds d rid"
  shows "ledger_inv d'"
  using assms by (simp add: ledger_inv_def)

lemma ledger_inv_released:
  assumes inv: "ledger_inv d"
    and res: "resources d' = map (\<lambda>r. r\<lparr>available_quantity := available_quantity r + h (r_id r)\<rparr>)
               (resources d)"
    and holds: "\<And>rid. outstanding_holds d rid = outstanding_holds d' rid + h rid"
  shows "ledger_inv d'"
  unfolding ledger_inv_def res
proof
  fix r' assume "r' \<in> set (map (\<lambda>r. r\<lparr>available_quantity := available_quantity r + h (r_id r)\<rparr>)
               (resources d))"
  then obtain r where r: "r \<in> set (resources d)"
    and r': "r' = r\<lparr>available_quantity := available_quantity r + h (r_id r)\<rparr>" by auto
  have "available_quantity r + outstanding_holds d (r_id r) = total_quantity r"
    using inv r by (simp add: ledger_inv_def)
  then show "available_quantity r' + outstanding_holds d' (r_id r') = total_quantity r'"
    using holds[of "r_id r"] by (simp add: r')
qed

lemma ledger_inv_reserved:
  assumes inv: "ledger_inv d"
    and res: "resources d' = map (\<lambda>r. r\<lparr>available_quantity := available_quantity r - h (r_id r)\<rparr>)
               (resources d)"
    and holds: "\<And>rid. outstanding_holds d' rid = outstanding_holds d rid + h rid"
  shows "ledger_inv d'"
  unfolding ledger_inv_def res
proof
  fix r' assume "r' \<in> set (map (\<lambda>r. r\<lparr>available_quantity := available_quantity r - h (r_id r)\<rparr>)
               (resources d))"
  then obtain r where r: "r \<in> set (resources d)"
    and r': "r' = r\<lparr>available_quantity := available_quantity r - h (r_id r)\<rparr>" by auto
  have "available_quantity r + outstanding_holds d (r_id r) = total_quantity r"
    using inv r by (simp add: ledger_inv_def)
  then show "available_quantity r' + outstanding_holds d' (r_id r') = total_quantity r'"
    using holds[of "r_id r"] by (simp add: r')
qed

lemma holds_have_events_kept:
  assumes "holds_have_events d" "event_resources d' = event_resources d"
    "map e_id (events d') = map e_id (events d)"
  shows "holds_have_events d'"
  using assms by (simp add: holds_have_events_def)

lemma approve_event_consistent:
  assumes c: "consistent d"
  shows "consistent (snd (approve_event d s eid c))"
proof (cases "\<exists>u ev. load_user d s = Some u \<and> role_required [''hod'', ''dean'', ''head''] (Some u)
            \<and> find (\<lambda>e. e_id e = eid) (events d) = Some ev
            \<and> status ev = ''pending_'' @ u_role u")
  case False
  then show ?thesis using c approve_event_refused[of d s eid c] by simp
next
  case True
  then obtain u ev where u: "load_user d s = Some u"
    and r: "role_required [''hod'', ''dean'', ''head''] (Some u)"
    and ev: "find (\<lambda>e. e_id e = eid) (events d) = Some ev"
    and st: "status ev = ''pending_'' @ u_role u" by blast
  from flow_of_role[OF r] obtain nx where
    fl: "APPROVAL_FLOW (''pending_'' @ u_role u) = Some (u_role u, nx)"
    and nx: "\<not> terminal nx" by (auto simp: terminal_def)
  define nr where "nr = (case APPROVAL_FLOW nx of None \<Rightarrow> [] | Some f \<Rightarrow> fst f)"
  define d' where "d' = approve_result d u ev eid c nx nr"
  have fl': "APPROVAL_FLOW (status ev) = Some (u_role u, nx)" using fl st by simp
  have res: "snd (approve_event d s eid c) = d'"
    using approve_event_done[OF u r ev st fl' nr_def] by (simp add: d'_def)
  have evs: "events d' =
     map (\<lambda>e. if e_id e = eid then e\<lparr>status := nx, current_approver_role := nr\<rparr> else e) (events d)"
    by (simp add: d'_def approve_result_fields)
  have sto: "status_of d' b = (if b = eid then Some nx else status_of d b)" for b
    using status_of_updated[OF evs, of b] ev by simp
  have pst: "\<not> terminal (status ev)" using st by (simp add: terminal_def)
  have st0: "status_of d eid = Some (status ev)" using ev by (simp add: status_of_def)
  have "map_option terminal (status_of d' b) = map_option terminal (status_of d b)" for b
    using sto[of b] st0 pst nx by simp
  note tm = this
  have ers: "event_resources d' = event_resources d"
    and rsc: "resources d' = resources d"
    by (simp_all add: d'_def approve_result_fields)
  have hs: "outstanding_holds d' rid = outstanding_holds d rid" for rid
    by (rule holds_same[OF ers tm])
  have inv: "ledger_inv d" and fk: "holds_have_events d"
    using c by (simp_all add: consistent_def)
  have "ledger_inv d'"
    by (rule ledger_inv_same[OF inv rsc hs])
  moreover have "holds_have_events d'"
    by (rule holds_have_events_kept[OF fk ers ids_updated[OF evs]]) simp
  ultimately show ?thesis by (simp add: res consistent_def)
qed

lemma reject_result_fields:
  "events (reject_result d u ev eid rs l) =
     map (\<lambda>e. if e_id e = eid
                then e\<lparr>status := ''rejected'', rejection_reason := rs, current_approver_role := []\<rparr>
                else e) (events d)"
  "event_resources (reject_result d u ev eid rs l) = event_resources d"
  "resources (reject_result d u ev eid rs l) =
     map (\<lambda>r. r\<lparr>available_quantity := available_quantity r +
            held (filter (\<lambda>er. er_event_id er = eid) (event_resources d)) (r_id r)\<rparr>) (resources d)"
  "users (reject_result d u ev eid rs l) = users d"
  "venues (reject_result d u ev eid rs l) = venues d"
  "approvals (reject_result d u ev eid rs l) = approvals d @
     [\<lparr>a_event_id = eid, approver_id = u_id u, a_role = u_role u,
       a_action = ''rejected'', a_comment = rs\<rparr>]"
  by (simp_all add: reject_result_def)

lemma complete_result_fields:
  "events (complete_result d eid) =
     map (\<lambda>e. if e_id e = eid
                then e\<lparr>status := ''completed'', current_approver_role := []\<rparr> else e) (events d)"
  "event_resources (complete_result d eid) = event_resources d"
  "resources (complete_result d eid) =
     map (\<lambda>r. r\<lparr>available_quantity := available_quantity r +
            held (filter (\<lambda>er. er_event_id er = eid) (event_resources d)) (r_id r)\<rparr>) (resources d)"
  "users (complete_result d eid) = users d"
  "venues (complete_result d eid) = venues d"
  "approvals (complete_result d eid) = approvals d"
  "notifications (complete_result d eid) = notifications d"
  by (simp_all add: complete_result_def)

lemma release_consistent:
  assumes c: "consistent d"
    and ev: "find (\<lambda>e. e_id e = eid) (events d) = Some ev"
    and st: "\<not> terminal (status ev)"
    and evs: "events d' = map (\<lambda>e. if e_id e = eid then upd e else e) (events d)"
    and upd: "\<And>e. e_id (upd e) = e_id e" "\<And>e. terminal (status (upd e))"
    and ers: "event_resources d' = event_resources d"
    and res: "resources d' =
     map (\<lambda>r. r\<lparr>available_quantity := available_quantity r +
            held (filter (\<lambda>er. er_event_id er = eid) (event_resources d)) (r_id r)\<rparr>) (resources d)"
  shows "consistent d'"
proof -
  have sto: "status_of d' b = (if b = eid then Some (status (upd ev)) else status_of d b)" for b
    using status_of_updated[OF evs upd(1), of b] ev by simp
  have st0: "status_of d eid = Some (status ev)" using ev by (simp add: status_of_def)
  have "outstanding_holds d rid = outstanding_holds d' rid +
          held (filter (\<lambda>er. er_event_id er = eid) (event_resources d)) rid" for rid
    by (rule holds_released[OF ers _ st0 st, of "status (upd ev)"]) (simp_all add: sto upd(2))
  note hs = this
  have inv: "ledger_inv d" and fk: "holds_have_events d"
    using c by (simp_all add: consistent_def)
  have "ledger_inv d'"
    by (rule ledger_inv_released[OF inv res hs])
  moreover have "holds_have_events d'"
    by (rule holds_have_events_kept[OF fk ers ids_updated[OF evs upd(1)]])
  ultimately show ?thesis by (simp add: consistent_def)
qed

lemma reject_event_consistent:
  assumes c: "consistent d"
  shows "consistent (snd (reject_event d s eid c))"
proof (cases "\<exists>u ev. load_user d s = Some u \<and> role_required [''hod'', ''dean'', ''head''] (Some u)
            \<and> find (\<lambda>e. e_id e = eid) (events d) = Some ev
            \<and> status ev = ''pending_'' @ u_role u \<and> strip c \<noteq> []")
  case False
  then show ?thesis using c reject_event_refused[of d s eid c] by simp
next
  case True
  then obtain u ev where u: "load_user d s = Some u"
    and r: "role_required [''hod'', ''dean'', ''head''] (Some u)"
    and ev: "find (\<lambda>e. e_id e = eid) (events d) = Some ev"
    and st: "status ev = ''pending_'' @ u_role u" and rs: "strip c \<noteq> []" by blast
  from role_label[OF r] obtain l where l: "ROLE_LABELS (u_role u) = Some l" by blast
  have res: "snd (reject_event d s eid c) = reject_result d u ev eid (strip c) l"
    using reject_event_done[OF u r ev st rs l] by simp
  have pst: "\<not> terminal (status ev)" using st by (simp add: terminal_def)
  show ?thesis
    unfolding res
    by (rule release_consistent[where upd = "\<lambda>e. e\<lparr>status := ''rejected'',
            rejection_reason := strip c, current_approver_role := []\<rparr>", OF c ev pst])
       (simp_all add: reject_result_fields terminal_def)
qed

lemma complete_event_consistent:
  assumes c: "consistent d"
  shows "consistent (snd (complete_event d s eid))"
proof (cases "\<exists>u ev. load_user d s = Some u \<and> role_required [''coordinator''] (Some u)
            \<and> find (\<lambda>e. e_id e = eid) (events d) = Some ev
            \<and> status ev = ''approved'' \<and> created_by ev = u_id u")
  case False
  then show ?thesis using c complete_event_refused[of d s eid] by simp
next
  case True
  then obtain u ev where u: "load_user d s = Some u"
    and r: "role_required [''coordinator''] (Some u)"
    and ev: "find (\<lambda>e. e_id e = eid) (events d) = Some ev"
    and st: "status ev = ''approved''" and ow: "created_by ev = u_id u" by blast
  have res: "snd (complete_event d s eid) = complete_result d eid"
    using complete_event_done[OF u r ev st ow] by simp
  have pst: "\<not> terminal (status ev)" using st by (simp add: terminal_def)
  show ?thesis
    unfolding res
    by (rule release_consistent[where upd = "\<lambda>e. e\<lparr>status := ''completed'',
            current_approver_role := []\<rparr>", OF c ev pst])
       (simp_all add: complete_result_fields terminal_def)
qed

lemma new_event_consistent:
  assumes c: "consistent d"
  shows "consistent (snd (new_event d s m fm))"
proof -
  from new_event_cases[of d s m fm] show ?thesis
  proof (elim disjE exE conjE)
    assume "snd (new_event d s m fm) = d"
    then show ?thesis using c by simp
  next
    fix u n vid v reqs
    assume u: "load_user d s = Some u" and r: "role_required [''coordinator''] (Some u)"
      and m: "m = POST" and n: "f_expected_attendees fm = Some n" and vid: "f_venue_id fm = Some vid"
      and b: "strip (f_title fm) \<noteq> []" "strip (f_event_date fm) \<noteq> []"
        "strip (f_start_time fm) \<noteq> []" "strip (f_end_time fm) \<noteq> []" "vid \<noteq> 0"
      and v: "find (\<lambda>v. v_id v = vid) (venues d) = Some v" and cap: "n \<le> capacity v"
      and free: "find (conflicts vid (strip (f_event_date fm)) (strip (f_start_time fm))
                 (strip (f_end_time fm))) (events d) = None"
      and rv: "resource_validation (f_resource fm) (sort_key r_name (resources d)) = Inr reqs"
    define d' where "d' = create_event d u (strip (f_title fm)) (strip (f_description fm))
              (strip (f_event_date fm)) (strip (f_start_time fm)) (strip (f_end_time fm))
              n vid reqs"
    have res: "snd (new_event d s m fm) = d'"
      using new_event_done[OF u r n vid b v cap free rv] m by (simp add: d'_def)
    define row where "row = \<lparr>e_id = lastrowid (map e_id (events d)), title = strip (f_title fm),
       description = strip (f_description fm), event_date = strip (f_event_date fm),
       start_time = strip (f_start_time fm), end_time = strip (f_end_time fm),
       expected_attendees = n, venue_id = vid,
       status = ''pending_hod'', current_approver_role = ''hod'',
       created_by = u_id u, rejection_reason = []\<rparr>"
    have evs: "events d' = events d @ [row]"
      by (simp add: d'_def row_def create_event_events)
    have rid: "e_id row = lastrowid (map e_id (events d))" by (simp add: row_def)
    have nt: "\<not> terminal (status row)" by (simp add: row_def terminal_def)
    have ers: "event_resources d' = event_resources d @ map (hold_row (e_id row)) reqs"
      by (simp add: d'_def rid create_event_holds)
    have fk: "holds_have_events d" using c by (simp add: consistent_def)
    have hold: "outstanding_holds d' k = outstanding_holds d k + requested reqs k" for k
      by (rule holds_added[OF evs rid nt ers fk])
    have stock: "resources d' =
        map (\<lambda>r. r\<lparr>available_quantity := available_quantity r - requested reqs (r_id r)\<rparr>)
          (resources d)"
      by (simp add: d'_def create_event_stock)
    have inv: "ledger_inv d" using c by (simp add: consistent_def)
    have "ledger_inv d'"
      by (rule ledger_inv_reserved[OF inv stock hold])
    moreover have "holds_have_events d'"
      unfolding holds_have_events_def evs ers
    proof
      fix er assume "er \<in> set (event_resources d @ map (hold_row (e_id row)) reqs)"
      then consider "er \<in> set (event_resources d)" | p where "er = hold_row (e_id row) p"
        by auto
      then show "er_event_id er \<in> set (map e_id (events d @ [row]))"
      proof cases
        case 1
        then show ?thesis using fk by (simp add: holds_have_events_def)
      next
        case 2
        then show ?thesis by (simp add: hold_row_def)
      qed
    qed
    ultimately show ?thesis by (simp add: res consistent_def)
  qed
qed

lemma step_consistent:
  assumes "consistent d"
  shows "consistent (snd (step d rq))"
proof (cases rq)
  case (NewEvent s m fm)
  then show ?thesis using new_event_consistent[OF assms] by simp
next
  case (ApproveEvent s eid c)
  then show ?thesis using approve_event_consistent[OF assms] by simp
next
  case (RejectEvent s eid c)
  then show ?thesis using reject_event_consistent[OF assms] by simp
next
  case (CompleteEvent s eid)
  then show ?thesis using complete_event_consistent[OF assms] by simp
qed

lemma run_consistent: "consistent d \<Longrightarrow> consistent (run d rqs)"
proof (induction rqs arbitrary: d)
  case Nil
  then show ?case by simp
next
  case (Cons rq rqs)
  have "consistent (snd (step d rq))" using Cons.prems by (rule step_consistent)
  then have "consistent (run (snd (step d rq)) rqs)" by (rule Cons.IH)
  then show ?case by simp
qed

text \<open>The two halves of a handler, run on one store, are the handler.\<close>

lemma reject_event_split:
  "reject_event d s eid rf =
     (case reject_checks d s eid rf of Inl r \<Rightarrow> (r, d) | Inr t \<Rightarrow> reject_writes eid t d)"
  unfolding reject_event_def reject_checks_def reject_writes_def
  by (simp add: Let_def split: option.splits)

lemma complete_event_split:
  "complete_event d s eid =
     (case complete_checks d s eid of Inl r \<Rightarrow> (r, d) | Inr t \<Rightarrow> complete_writes eid d)"
  unfolding complete_event_def complete_checks_def complete_writes_def
  by (simp add: Let_def split: option.splits)

text \<open>
  C1, as stated, fails: the claim holds after every completed operation, but two reject
  requests on one booking that overlap both pass the status test before either writes,
  and both add the holds back. The head of department of the seed data sending the
  rejection of the booking twice (a form submitted twice): both requests answer that the
  event has been rejected, and projectors and microphones end above their totals, with
  no hold outstanding.
\<close>

theorem ledger_invariant_overlap_counterexample:
  "holds_have_events submitted \<and> ledger_inv submitted \<and>
   fst (overlapping_rejects submitted 1 (Some 2) ''no budget'' (Some 2) ''no budget'') =
     Flashed Rejected Dashboard \<and>
   fst (snd (overlapping_rejects submitted 1 (Some 2) ''no budget'' (Some 2) ''no budget'')) =
     Flashed Rejected Dashboard \<and>
   map status (events (snd (snd
     (overlapping_rejects submitted 1 (Some 2) ''no budget'' (Some 2) ''no budget'')))) =
     [''rejected''] \<and>
   map available_quantity (resources (snd (snd
     (overlapping_rejects submitted 1 (Some 2) ''no budget'' (Some 2) ''no budget'')))) =
     [7, 13, 8, 15] \<and>
   map total_quantity (resources (snd (snd
     (overlapping_rejects submitted 1 (Some 2) ''no budget'' (Some 2) ''no budget'')))) =
     [5, 10, 8, 15] \<and>
   \<not> ledger_inv (snd (snd
     (overlapping_rejects submitted 1 (Some 2) ''no budget'' (Some 2) ''no budget'')))"
  unfolding submitted_def by code_simp

text \<open>
  C1, amended. When the operations run one at a time, each starting on the store the
  previous one committed: for every resource, after any sequence of booking
  submissions, approvals, rejections and completions (each one run to its end, whether
  it succeeds or is refused), the available quantity plus the outstanding holds on the
  resource (the holds of bookings that are neither rejected nor completed) equals the
  total quantity, provided this was so before the sequence and every hold row belongs
  to a booking. Requests that overlap are not covered.
\<close>

theorem ledger_invariant_after_operations:
  assumes "holds_have_events d" and "ledger_inv d"
  shows "\<forall>r\<in>set (resources (run d rqs)).
           available_quantity r + outstanding_holds (run d rqs) (r_id r) = total_quantity r"
proof -
  have "consistent d" using assms by (simp add: consistent_def)
  then have "consistent (run d rqs)" by (rule run_consistent)
  then show ?thesis by (simp add: consistent_def ledger_inv_def)
qed

theorem ledger_invariant_after_operations_witness:
  "holds_have_events init_db \<and> ledger_inv init_db \<and>
   list_all (\<lambda>r. available_quantity r + outstanding_holds (run init_db
        [NewEvent (Some 1) POST talk, ApproveEvent (Some 2) 1 ''fine'',
         RejectEvent (Some 3) 1 ''clash with exams'']) (r_id r) = total_quantity r)
     (resources (run init_db
        [NewEvent (Some 1) POST talk, ApproveEvent (Some 2) 1 ''fine'',
         RejectEvent (Some 3) 1 ''clash with exams''])) \<and>
   map available_quantity (resources submitted) = [3, 7, 8, 15]"
proof -
  have h1: "holds_have_events init_db"
    by (simp add: holds_have_events_def init_db_def)
  have h2: "ledger_inv init_db"
    by (simp add: ledger_inv_def init_db_def outstanding_holds_def)
  have h3: "map available_quantity (resources submitted) = [3, 7, 8, 15]"
    unfolding submitted_def by code_simp
  from ledger_invariant_after_operations[OF h1 h2] h1 h2 h3 show ?thesis
    unfolding list_all_iff by blast
qed

text \<open>
  C6. For a booking in a pending state, an approve by a user whose role is the pending
  one succeeds: it appends one approval record with action approved, moves the status
  one step along hod, dean, head, approved, sets \<open>current_approver_role\<close> to the next role
  (empty when the new status is approved), changes no other booking, and leaves the
  hold rows and the available quantities as they were.
\<close>

theorem approve_advances_one_step:
  assumes "load_user d s = Some u"
    and "u_role u = ''hod'' \<or> u_role u = ''dean'' \<or> u_role u = ''head''"
    and "find (\<lambda>e. e_id e = eid) (events d) = Some ev"
    and "status ev = ''pending_'' @ u_role u"
  shows "\<exists>nx nr.
      (u_role u = ''hod'' \<and> nx = ''pending_dean'' \<and> nr = ''dean'' \<or>
       u_role u = ''dean'' \<and> nx = ''pending_head'' \<and> nr = ''head'' \<or>
       u_role u = ''head'' \<and> nx = ''approved'' \<and> nr = []) \<and>
      fst (approve_event d s eid c) = Flashed (Approved nx) Dashboard \<and>
      approvals (snd (approve_event d s eid c)) = approvals d @
        [\<lparr>a_event_id = eid, approver_id = u_id u, a_role = u_role u,
          a_action = ''approved'', a_comment = strip c\<rparr>] \<and>
      events (snd (approve_event d s eid c)) =
        map (\<lambda>e. if e_id e = eid then e\<lparr>status := nx, current_approver_role := nr\<rparr> else e)
          (events d) \<and>
      find (\<lambda>e. e_id e = eid) (events (snd (approve_event d s eid c))) =
        Some (ev\<lparr>status := nx, current_approver_role := nr\<rparr>) \<and>
      event_resources (snd (approve_event d s eid c)) = event_resources d \<and>
      resources (snd (approve_event d s eid c)) = resources d"
proof -
  have r: "role_required [''hod'', ''dean'', ''head''] (Some u)"
    using assms(2) by (auto simp: role_required_def)
  from flow_of_role[OF r] obtain nx where
    fl: "APPROVAL_FLOW (''pending_'' @ u_role u) = Some (u_role u, nx)"
    and nx: "u_role u = ''hod'' \<and> nx = ''pending_dean'' \<or>
            u_role u = ''dean'' \<and> nx = ''pending_head'' \<or>
            u_role u = ''head'' \<and> nx = ''approved''" by blast
  define nr where "nr = (case APPROVAL_FLOW nx of None \<Rightarrow> [] | Some f \<Rightarrow> fst f)"
  have nr: "u_role u = ''hod'' \<and> nx = ''pending_dean'' \<and> nr = ''dean'' \<or>
       u_role u = ''dean'' \<and> nx = ''pending_head'' \<and> nr = ''head'' \<or>
       u_role u = ''head'' \<and> nx = ''approved'' \<and> nr = []"
    using nx by (auto simp: nr_def APPROVAL_FLOW_def)
  have fl': "APPROVAL_FLOW (status ev) = Some (u_role u, nx)" using fl assms(4) by simp
  have res: "approve_event d s eid c =
      (Flashed (Approved nx) Dashboard, approve_result d u ev eid c nx nr)"
    by (rule approve_event_done[OF assms(1) r assms(3) assms(4) fl' nr_def])
  have ev_id: "e_id ev = eid" using assms(3) by (auto simp: find_Some_iff)
  have fnd: "find (\<lambda>e. e_id e = eid)
        (map (\<lambda>e. if e_id e = eid then e\<lparr>status := nx, current_approver_role := nr\<rparr> else e)
          (events d)) = Some (ev\<lparr>status := nx, current_approver_role := nr\<rparr>)"
    using find_keyed_map[of e_id "\<lambda>e. if e_id e = eid then e\<lparr>status := nx, current_approver_role := nr\<rparr> else e" eid "events d"]
      assms(3) ev_id by simp
  show ?thesis
    apply (rule exI[of _ nx], rule exI[of _ nr])
    using nr fnd by (simp add: res approve_result_fields)
qed

theorem approve_advances_one_step_witness:
  "fst (approve_event submitted (Some 2) 1 ''fine'') = Flashed (Approved ''pending_dean'') Dashboard \<and>
   map status (events (snd (approve_event submitted (Some 2) 1 ''fine''))) = [''pending_dean''] \<and>
   map current_approver_role (events (snd (approve_event submitted (Some 2) 1 ''fine''))) = [''dean''] \<and>
   map a_action (approvals (snd (approve_event submitted (Some 2) 1 ''fine''))) = [''approved''] \<and>
   resources (snd (approve_event submitted (Some 2) 1 ''fine'')) = resources submitted"
proof -
  define u where "u = \<lparr>u_id = 2, username = ''hod'', full_name = ''Bob HOD'',
          u_role = ''hod'', department = ''Computer Science''\<rparr>"
  define ev where "ev = \<lparr>e_id = 1, title = ''Tech Talk'', description = ''Guest lecture'',
       event_date = ''2024-05-01'', start_time = ''10:00'', end_time = ''12:00'',
       expected_attendees = 50, venue_id = 2, status = ''pending_hod'',
       current_approver_role = ''hod'', created_by = 1, rejection_reason = []\<rparr>"
  have evs: "events submitted = [ev]" unfolding submitted_def ev_def by code_simp
  have aps: "approvals submitted = []" unfolding submitted_def by code_simp
  have h1: "load_user submitted (Some 2) = Some u" unfolding submitted_def u_def by code_simp
  have h2: "u_role u = ''hod'' \<or> u_role u = ''dean'' \<or> u_role u = ''head''" by (simp add: u_def)
  have h3: "find (\<lambda>e. e_id e = 1) (events submitted) = Some ev" by (simp add: evs ev_def)
  have h4: "status ev = ''pending_'' @ u_role u" by (simp add: ev_def u_def)
  from approve_advances_one_step[OF h1 h2 h3 h4, of "''fine''"] show ?thesis
    by (auto simp: u_def evs aps ev_def)
qed

text \<open>
  C8, as stated, fails: the claim promises the not-current-approver error to every
  caller whose role does not match the pending state, but \<^verbatim>\<open>role_required\<close> stops a caller
  whose role is none of hod, dean and head before the handler's own check, with the
  no-permission message. The coordinator of the seed data approving the booking that
  waits for the head of department:
\<close>

theorem not_current_approver_counterexample:
  "map_option u_role (load_user submitted (Some 1)) = Some ''coordinator'' \<and>
   status_of submitted 1 = Some ''pending_hod'' \<and>
   approve_event submitted (Some 1) 1 [] = (Flashed NoPermission Dashboard, submitted) \<and>
   fst (approve_event submitted (Some 1) 1 []) \<noteq> Flashed NotCurrentApprover (EventDetail 1)"
proof -
  have a: "map_option u_role (load_user submitted (Some 1)) = Some ''coordinator''"
    unfolding submitted_def by code_simp
  have b: "status_of submitted 1 = Some ''pending_hod''"
    unfolding submitted_def by code_simp
  have c: "approve_event d (Some 1) 1 [] = (Flashed NoPermission Dashboard, d)"
    if "map_option u_role (load_user d (Some 1)) = Some ''coordinator''" for d
    using that unfolding approve_event_def
    by (auto simp: login_required_def role_required_def split: option.splits)
  show ?thesis using a b c[OF a] by simp
qed

text \<open>
  C8, amended. For an existing booking and a caller whose role does not match its
  current pending state (also when the status has advanced past that role or is
  approved, rejected or completed): approve and reject answer that the user is not the
  current approver when the caller's role is hod, dean or head, and that the user has no
  permission when it is any other role; in both cases the whole store (booking, holds,
  inventory, approval log) is unchanged.
\<close>

theorem not_current_approver_refused:
  assumes "load_user d s = Some u"
    and "find (\<lambda>e. e_id e = eid) (events d) = Some ev"
    and "status ev \<noteq> ''pending_'' @ u_role u"
  shows "(u_role u \<in> set [''hod'', ''dean'', ''head''] \<longrightarrow>
            approve_event d s eid c = (Flashed NotCurrentApprover (EventDetail eid), d) \<and>
            reject_event d s eid c = (Flashed NotCurrentApprover (EventDetail eid), d)) \<and>
         (u_role u \<notin> set [''hod'', ''dean'', ''head''] \<longrightarrow>
            approve_event d s eid c = (Flashed NoPermission Dashboard, d) \<and>
            reject_event d s eid c = (Flashed NoPermission Dashboard, d))"
proof -
  have lg: "login_required s" using assms(1) by (rule load_user_Some_session)
  show ?thesis
  proof (cases "u_role u \<in> set [''hod'', ''dean'', ''head'']")
    case True
    then have r: "role_required [''hod'', ''dean'', ''head''] (Some u)"
      by (simp add: role_required_def)
    have "approve_event d s eid c = (Flashed NotCurrentApprover (EventDetail eid), d)"
      unfolding approve_event_def
      by (simp only: lg r assms Let_def option.case if_False if_True
          not_True_eq_False not_False_eq_True simp_thms)
    moreover have "reject_event d s eid c = (Flashed NotCurrentApprover (EventDetail eid), d)"
      unfolding reject_event_def
      by (simp only: lg r assms Let_def option.case if_False if_True
          not_True_eq_False not_False_eq_True simp_thms)
    ultimately show ?thesis using True by simp
  next
    case False
    then have r: "\<not> role_required [''hod'', ''dean'', ''head''] (Some u)"
      by (simp add: role_required_def)
    have "approve_event d s eid c = (Flashed NoPermission Dashboard, d)"
      unfolding approve_event_def
      by (simp only: lg r assms Let_def option.case if_False if_True
          not_True_eq_False not_False_eq_True simp_thms)
    moreover have "reject_event d s eid c = (Flashed NoPermission Dashboard, d)"
      unfolding reject_event_def
      by (simp only: lg r assms Let_def option.case if_False if_True
          not_True_eq_False not_False_eq_True simp_thms)
    ultimately show ?thesis using False by simp
  qed
qed

theorem not_current_approver_refused_witness:
  "approve_event at_dean (Some 2) 1 ''again'' = (Flashed NotCurrentApprover (EventDetail 1), at_dean) \<and>
   reject_event at_dean (Some 2) 1 ''again'' = (Flashed NotCurrentApprover (EventDetail 1), at_dean)"
proof -
  define u where "u = \<lparr>u_id = 2, username = ''hod'', full_name = ''Bob HOD'',
          u_role = ''hod'', department = ''Computer Science''\<rparr>"
  define ev where "ev = \<lparr>e_id = 1, title = ''Tech Talk'', description = ''Guest lecture'',
       event_date = ''2024-05-01'', start_time = ''10:00'', end_time = ''12:00'',
       expected_attendees = 50, venue_id = 2, status = ''pending_dean'',
       current_approver_role = ''dean'', created_by = 1, rejection_reason = []\<rparr>"
  have h1: "load_user at_dean (Some 2) = Some u" unfolding at_dean_def u_def by code_simp
  have h3: "find (\<lambda>e. e_id e = 1) (events at_dean) = Some ev"
    unfolding at_dean_def ev_def by code_simp
  have h4: "status ev \<noteq> ''pending_'' @ u_role u" by (simp add: ev_def u_def)
  from not_current_approver_refused[OF h1 h3 h4, of "''again''"] show ?thesis
    by (simp add: u_def)
qed

text \<open>
  C10. A complete call that succeeds changes the status of the booking to completed and
  its \<open>current_approver_role\<close> to empty, and adds to the available quantity of each
  resource what the booking holds of it; every other column of every table is as before:
  no approval record is appended and no notification is inserted.
\<close>

theorem complete_changes_only_status_and_stock:
  assumes "fst (complete_event d s eid) = Flashed Completed Dashboard"
  shows "snd (complete_event d s eid) =
           d\<lparr>events := map (\<lambda>e. if e_id e = eid
                               then e\<lparr>status := ''completed'', current_approver_role := []\<rparr>
                               else e) (events d),
             resources := map (\<lambda>r. r\<lparr>available_quantity := available_quantity r +
                                 held (filter (\<lambda>er. er_event_id er = eid) (event_resources d))
                                   (r_id r)\<rparr>) (resources d)\<rparr> \<and>
         approvals (snd (complete_event d s eid)) = approvals d \<and>
         notifications (snd (complete_event d s eid)) = notifications d \<and>
         event_resources (snd (complete_event d s eid)) = event_resources d"
proof -
  have "\<exists>u ev. load_user d s = Some u \<and> role_required [''coordinator''] (Some u)
            \<and> find (\<lambda>e. e_id e = eid) (events d) = Some ev
            \<and> status ev = ''approved'' \<and> created_by ev = u_id u"
    using assms unfolding complete_event_def
    by (auto simp: Let_def split: option.splits if_splits)
  then obtain u ev where "load_user d s = Some u" "role_required [''coordinator''] (Some u)"
    "find (\<lambda>e. e_id e = eid) (events d) = Some ev" "status ev = ''approved''"
    "created_by ev = u_id u" by blast
  then have "complete_event d s eid = (Flashed Completed Dashboard, complete_result d eid)"
    by (rule complete_event_done)
  then show ?thesis by (simp add: complete_result_def)
qed

theorem complete_changes_only_status_and_stock_witness:
  "fst (complete_event fully_approved (Some 1) 1) = Flashed Completed Dashboard \<and>
   map status (events (snd (complete_event fully_approved (Some 1) 1))) = [''completed''] \<and>
   map available_quantity (resources (snd (complete_event fully_approved (Some 1) 1))) =
     [5, 10, 8, 15] \<and>
   approvals (snd (complete_event fully_approved (Some 1) 1)) = approvals fully_approved \<and>
   notifications (snd (complete_event fully_approved (Some 1) 1)) = notifications fully_approved"
proof -
  have h: "fst (complete_event fully_approved (Some 1) 1) = Flashed Completed Dashboard"
    unfolding fully_approved_def by code_simp
  have e: "map status (events fully_approved) = [''approved'']"
      "map e_id (events fully_approved) = [1]"
    unfolding fully_approved_def by code_simp+
  have q: "map available_quantity (resources (snd (complete_event fully_approved (Some 1) 1))) =
     [5, 10, 8, 15]"
    unfolding fully_approved_def by code_simp
  have st: "map status (events (snd (complete_event fully_approved (Some 1) 1))) = [''completed'']"
    unfolding fully_approved_def by code_simp
  from complete_changes_only_status_and_stock[OF h] h q st show ?thesis by simp
qed

text \<open>
  C7, as stated, fails: the handler trims the reason before it tests it, so a reason of
  white space only, which is not empty, is refused like an empty one. The head of
  department of the seed data rejecting the booking that waits for him, with three
  spaces as the reason:
\<close>

theorem reject_reason_counterexample:
  "map_option u_role (load_user submitted (Some 2)) = Some ''hod'' \<and>
   status_of submitted 1 = Some ''pending_hod'' \<and>
   ''   '' \<noteq> ([] :: string) \<and>
   reject_event submitted (Some 2) 1 ''   '' = (Flashed ReasonRequired (EventDetail 1), submitted)"
proof -
  have a: "map_option u_role (load_user submitted (Some 2)) = Some ''hod''"
    unfolding submitted_def by code_simp
  have b: "status_of submitted 1 = Some ''pending_hod''"
    unfolding submitted_def by code_simp
  have s: "strip ''   '' = []" by (simp add: strip_def is_space_def)
  have c: "reject_event d (Some 2) 1 ''   '' = (Flashed ReasonRequired (EventDetail 1), d)"
    if "map_option u_role (load_user d (Some 2)) = Some ''hod''"
      and "status_of d 1 = Some ''pending_hod''" for d
    using that s unfolding reject_event_def status_of_def
    by (auto simp: login_required_def role_required_def Let_def split: option.splits)
  show ?thesis using a b c[OF a b] by simp
qed

text \<open>
  C7, amended. The reason is the form field with leading and trailing white space
  removed. A reject whose trimmed reason is empty fails and leaves the whole store
  unchanged, whoever calls. For a booking in a pending state and a caller of the
  matching role: with an empty trimmed reason the answer is that a reason is required;
  with a non-empty one the call succeeds, appends an approval record with action
  rejected and the trimmed reason as comment, sets the status to rejected, clears
  \<open>current_approver_role\<close>, stores the trimmed reason as \<open>rejection_reason\<close>, and adds every
  hold of the booking back to the available quantity of its resource.
\<close>

theorem reject_requires_reason_and_releases:
  "(strip rf = [] \<longrightarrow>
      snd (reject_event d s eid rf) = d \<and> fst (reject_event d s eid rf) \<noteq> Flashed Rejected Dashboard) \<and>
   (load_user d s = Some u \<and> u_role u \<in> set [''hod'', ''dean'', ''head''] \<and>
    find (\<lambda>e. e_id e = eid) (events d) = Some ev \<and> status ev = ''pending_'' @ u_role u \<longrightarrow>
      (strip rf = [] \<longrightarrow>
         reject_event d s eid rf = (Flashed ReasonRequired (EventDetail eid), d)) \<and>
      (strip rf \<noteq> [] \<longrightarrow>
         fst (reject_event d s eid rf) = Flashed Rejected Dashboard \<and>
         approvals (snd (reject_event d s eid rf)) = approvals d @
           [\<lparr>a_event_id = eid, approver_id = u_id u, a_role = u_role u,
             a_action = ''rejected'', a_comment = strip rf\<rparr>] \<and>
         events (snd (reject_event d s eid rf)) =
           map (\<lambda>e. if e_id e = eid
                      then e\<lparr>status := ''rejected'', rejection_reason := strip rf,
                             current_approver_role := []\<rparr>
                      else e) (events d) \<and>
         find (\<lambda>e. e_id e = eid) (events (snd (reject_event d s eid rf))) =
           Some (ev\<lparr>status := ''rejected'', rejection_reason := strip rf,
                    current_approver_role := []\<rparr>) \<and>
         event_resources (snd (reject_event d s eid rf)) = event_resources d \<and>
         resources (snd (reject_event d s eid rf)) =
           map (\<lambda>r. r\<lparr>available_quantity := available_quantity r +
                  held (filter (\<lambda>er. er_event_id er = eid) (event_resources d)) (r_id r)\<rparr>)
             (resources d)))"
proof (intro conjI impI)
  assume e: "strip rf = []"
  then have no: "\<not> (\<exists>u ev. load_user d s = Some u \<and> role_required [''hod'', ''dean'', ''head''] (Some u)
            \<and> find (\<lambda>e. e_id e = eid) (events d) = Some ev
            \<and> status ev = ''pending_'' @ u_role u \<and> strip rf \<noteq> [])" by simp
  show "snd (reject_event d s eid rf) = d" using no by (rule reject_event_refused)
  show "fst (reject_event d s eid rf) \<noteq> Flashed Rejected Dashboard"
    using e unfolding reject_event_def
    by (auto simp: Let_def split: option.splits)
next
  assume a: "load_user d s = Some u \<and> u_role u \<in> set [''hod'', ''dean'', ''head''] \<and>
    find (\<lambda>e. e_id e = eid) (events d) = Some ev \<and> status ev = ''pending_'' @ u_role u"
  then have u: "load_user d s = Some u" and ev: "find (\<lambda>e. e_id e = eid) (events d) = Some ev"
    and st: "status ev = ''pending_'' @ u_role u"
    and r: "role_required [''hod'', ''dean'', ''head''] (Some u)"
    by (simp_all add: role_required_def)
  have lg: "login_required s" using u by (rule load_user_Some_session)
  {
    assume e: "strip rf = []"
    show "reject_event d s eid rf = (Flashed ReasonRequired (EventDetail eid), d)"
      unfolding reject_event_def
      by (simp only: lg r u ev e Let_def option.case if_False if_True
          not_True_eq_False not_False_eq_True simp_thms flip: st)
  }
  {
    assume ne: "strip rf \<noteq> []"
    from role_label[OF r] obtain l where l: "ROLE_LABELS (u_role u) = Some l" by blast
    have res: "reject_event d s eid rf =
        (Flashed Rejected Dashboard, reject_result d u ev eid (strip rf) l)"
      by (rule reject_event_done[OF u r ev st ne l])
    have ev_id: "e_id ev = eid" using ev by (auto simp: find_Some_iff)
    show "fst (reject_event d s eid rf) = Flashed Rejected Dashboard" by (simp add: res)
    show "approvals (snd (reject_event d s eid rf)) = approvals d @
           [\<lparr>a_event_id = eid, approver_id = u_id u, a_role = u_role u,
             a_action = ''rejected'', a_comment = strip rf\<rparr>]"
      by (simp add: res reject_result_fields)
    show evs: "events (snd (reject_event d s eid rf)) =
           map (\<lambda>e. if e_id e = eid
                      then e\<lparr>status := ''rejected'', rejection_reason := strip rf,
                             current_approver_role := []\<rparr>
                      else e) (events d)"
      by (simp add: res reject_result_fields)
    show "find (\<lambda>e. e_id e = eid) (events (snd (reject_event d s eid rf))) =
           Some (ev\<lparr>status := ''rejected'', rejection_reason := strip rf,
                    current_approver_role := []\<rparr>)"
      unfolding evs
      using find_keyed_map[of e_id "\<lambda>e. if e_id e = eid
                      then e\<lparr>status := ''rejected'', rejection_reason := strip rf,
                             current_approver_role := []\<rparr>
                      else e" eid "events d"] ev ev_id by simp
    show "event_resources (snd (reject_event d s eid rf)) = event_resources d"
      by (simp add: res reject_result_fields)
    show "resources (snd (reject_event d s eid rf)) =
           map (\<lambda>r. r\<lparr>available_quantity := available_quantity r +
                  held (filter (\<lambda>er. er_event_id er = eid) (event_resources d)) (r_id r)\<rparr>)
             (resources d)"
      by (simp add: res reject_result_fields)
  }
qed

theorem reject_requires_reason_and_releases_witness:
  "map status (events (snd (reject_event submitted (Some 2) 1 '' no budget ''))) = [''rejected''] \<and>
   map rejection_reason (events (snd (reject_event submitted (Some 2) 1 '' no budget ''))) =
     [''no budget''] \<and>
   map available_quantity (resources (snd (reject_event submitted (Some 2) 1 '' no budget ''))) =
     [5, 10, 8, 15] \<and>
   reject_event submitted (Some 2) 1 [] = (Flashed ReasonRequired (EventDetail 1), submitted)"
proof -
  define u where "u = \<lparr>u_id = 2, username = ''hod'', full_name = ''Bob HOD'',
          u_role = ''hod'', department = ''Computer Science''\<rparr>"
  define ev where "ev = \<lparr>e_id = 1, title = ''Tech Talk'', description = ''Guest lecture'',
       event_date = ''2024-05-01'', start_time = ''10:00'', end_time = ''12:00'',
       expected_attendees = 50, venue_id = 2, status = ''pending_hod'',
       current_approver_role = ''hod'', created_by = 1, rejection_reason = []\<rparr>"
  have evs: "events submitted = [ev]" unfolding submitted_def ev_def by code_simp
  have h: "load_user submitted (Some 2) = Some u \<and> u_role u \<in> set [''hod'', ''dean'', ''head''] \<and>
    find (\<lambda>e. e_id e = 1) (events submitted) = Some ev \<and> status ev = ''pending_'' @ u_role u"
    unfolding evs by (simp add: ev_def u_def, simp add: submitted_def u_def, code_simp)
  have s1: "strip '' no budget '' = ''no budget''" by (simp add: strip_def is_space_def)
  have s2: "strip [] = []" by (simp add: strip_def)
  have q: "map available_quantity (resources (snd (reject_event submitted (Some 2) 1 '' no budget ''))) =
     [5, 10, 8, 15]" unfolding submitted_def by code_simp
  from reject_requires_reason_and_releases[of "'' no budget ''" submitted "Some 2" 1 u ev]
    reject_requires_reason_and_releases[of "[]" submitted "Some 2" 1 u ev] h q
  show ?thesis
    by (simp add: s1 s2 evs ev_def)
qed

lemma new_event_submitted:
  assumes "fst (new_event d s m fm) = Flashed Submitted Dashboard"
  shows "\<exists>u n vid v reqs. load_user d s = Some u \<and> role_required [''coordinator''] (Some u) \<and> m = POST \<and>
      f_expected_attendees fm = Some n \<and> f_venue_id fm = Some vid \<and>
      strip (f_title fm) \<noteq> [] \<and> strip (f_event_date fm) \<noteq> [] \<and>
      strip (f_start_time fm) \<noteq> [] \<and> strip (f_end_time fm) \<noteq> [] \<and> vid \<noteq> 0 \<and>
      find (\<lambda>v. v_id v = vid) (venues d) = Some v \<and> n \<le> capacity v \<and>
      find (conflicts vid (strip (f_event_date fm)) (strip (f_start_time fm))
                 (strip (f_end_time fm))) (events d) = None \<and>
      resource_validation (f_resource fm) (sort_key r_name (resources d)) = Inr reqs"
  using assms unfolding new_event_def Let_def
  by (auto split: option.splits sum.splits if_splits dest: resource_validation_Inl)

lemma new_event_not_submitted:
  assumes "fst (new_event d s m fm) \<noteq> Flashed Submitted Dashboard"
  shows "snd (new_event d s m fm) = d"
proof -
  from new_event_cases[of d s m fm] show ?thesis
  proof (elim disjE exE conjE)
    assume "snd (new_event d s m fm) = d"
    then show ?thesis .
  next
    fix u n vid v reqs
    assume u: "load_user d s = Some u" and r: "role_required [''coordinator''] (Some u)"
      and m: "m = POST" and n: "f_expected_attendees fm = Some n" and vid: "f_venue_id fm = Some vid"
      and b: "strip (f_title fm) \<noteq> []" "strip (f_event_date fm) \<noteq> []"
        "strip (f_start_time fm) \<noteq> []" "strip (f_end_time fm) \<noteq> []" "vid \<noteq> 0"
      and v: "find (\<lambda>v. v_id v = vid) (venues d) = Some v" and cap: "n \<le> capacity v"
      and free: "find (conflicts vid (strip (f_event_date fm)) (strip (f_start_time fm))
                 (strip (f_end_time fm))) (events d) = None"
      and rv: "resource_validation (f_resource fm) (sort_key r_name (resources d)) = Inr reqs"
    have "fst (new_event d s m fm) = Flashed Submitted Dashboard"
      using new_event_done[OF u r n vid b v cap free rv] m by simp
    then show ?thesis using assms by simp
  qed
qed

text \<open>
  C9, as stated, fails: no handler compares the two times. The coordinator of the seed
  data submitting a booking from 12:00 to 10:00 is admitted, and the booking is stored
  with its start after its end.
\<close>

theorem reversed_times_counterexample:
  "''12:00'' \<ge> ''10:00'' \<and>
   fst (new_event init_db (Some 1) POST reversed) = Flashed Submitted Dashboard \<and>
   map start_time (events (snd (new_event init_db (Some 1) POST reversed))) = [''12:00''] \<and>
   map end_time (events (snd (new_event init_db (Some 1) POST reversed))) = [''10:00'']"
  unfolding reversed_def by code_simp

text \<open>
  C9, amended. Every booking accepted by a submission is stored with the trimmed
  \<open>start_time\<close> and \<open>end_time\<close> of the form, and both are non-empty; a submission that is
  not accepted creates no booking. The order of the two times is not checked: a
  submission whose other checks pass (a logged-in coordinator, the required fields, an
  existing venue, the capacity, no conflicting booking, the stock) is admitted and
  creates a booking, also when \<open>start_time\<close> is not before \<open>end_time\<close>.
\<close>

theorem admitted_booking_times:
  "(fst (new_event d s m fm) = Flashed Submitted Dashboard \<longrightarrow>
      (\<exists>row. events (snd (new_event d s m fm)) = events d @ [row] \<and>
         start_time row = strip (f_start_time fm) \<and> end_time row = strip (f_end_time fm) \<and>
         start_time row \<noteq> [] \<and> end_time row \<noteq> [])) \<and>
   (fst (new_event d s m fm) \<noteq> Flashed Submitted Dashboard \<longrightarrow>
      events (snd (new_event d s m fm)) = events d) \<and>
   (load_user d s = Some u \<and> u_role u = ''coordinator'' \<and>
    f_expected_attendees fm = Some n \<and> f_venue_id fm = Some vid \<and> vid \<noteq> 0 \<and>
    strip (f_title fm) \<noteq> [] \<and> strip (f_event_date fm) \<noteq> [] \<and>
    strip (f_start_time fm) \<noteq> [] \<and> strip (f_end_time fm) \<noteq> [] \<and>
    find (\<lambda>v. v_id v = vid) (venues d) = Some v \<and> n \<le> capacity v \<and>
    find (conflicts vid (strip (f_event_date fm)) (strip (f_start_time fm))
      (strip (f_end_time fm))) (events d) = None \<and>
    resource_validation (f_resource fm) (sort_key r_name (resources d)) = Inr reqs \<longrightarrow>
      fst (new_event d s POST fm) = Flashed Submitted Dashboard \<and>
      length (events (snd (new_event d s POST fm))) = length (events d) + 1)"
proof (intro conjI impI)
  assume a: "fst (new_event d s m fm) = Flashed Submitted Dashboard"
  from new_event_submitted[OF a] obtain u n vid v reqs where
    u: "load_user d s = Some u" and r: "role_required [''coordinator''] (Some u)"
      and m: "m = POST" and n: "f_expected_attendees fm = Some n" and vid: "f_venue_id fm = Some vid"
      and b: "strip (f_title fm) \<noteq> []" "strip (f_event_date fm) \<noteq> []"
        "strip (f_start_time fm) \<noteq> []" "strip (f_end_time fm) \<noteq> []" "vid \<noteq> 0"
      and v: "find (\<lambda>v. v_id v = vid) (venues d) = Some v" and cap: "n \<le> capacity v"
      and free: "find (conflicts vid (strip (f_event_date fm)) (strip (f_start_time fm))
                 (strip (f_end_time fm))) (events d) = None"
      and rv: "resource_validation (f_resource fm) (sort_key r_name (resources d)) = Inr reqs"
    by blast
  have "events (snd (new_event d s m fm)) = events d @
     [\<lparr>e_id = lastrowid (map e_id (events d)), title = strip (f_title fm),
       description = strip (f_description fm), event_date = strip (f_event_date fm),
       start_time = strip (f_start_time fm), end_time = strip (f_end_time fm),
       expected_attendees = n, venue_id = vid,
       status = ''pending_hod'', current_approver_role = ''hod'',
       created_by = u_id u, rejection_reason = []\<rparr>]"
    using new_event_done[OF u r n vid b v cap free rv] m by (simp add: create_event_events)
  then show "\<exists>row. events (snd (new_event d s m fm)) = events d @ [row] \<and>
         start_time row = strip (f_start_time fm) \<and> end_time row = strip (f_end_time fm) \<and>
         start_time row \<noteq> [] \<and> end_time row \<noteq> []"
    using b by simp
next
  assume "fst (new_event d s m fm) \<noteq> Flashed Submitted Dashboard"
  then have "snd (new_event d s m fm) = d" by (rule new_event_not_submitted)
  then show "events (snd (new_event d s m fm)) = events d" by simp
next
  assume a: "load_user d s = Some u \<and> u_role u = ''coordinator'' \<and>
    f_expected_attendees fm = Some n \<and> f_venue_id fm = Some vid \<and> vid \<noteq> 0 \<and>
    strip (f_title fm) \<noteq> [] \<and> strip (f_event_date fm) \<noteq> [] \<and>
    strip (f_start_time fm) \<noteq> [] \<and> strip (f_end_time fm) \<noteq> [] \<and>
    find (\<lambda>v. v_id v = vid) (venues d) = Some v \<and> n \<le> capacity v \<and>
    find (conflicts vid (strip (f_event_date fm)) (strip (f_start_time fm))
      (strip (f_end_time fm))) (events d) = None \<and>
    resource_validation (f_resource fm) (sort_key r_name (resources d)) = Inr reqs"
  then have r: "role_required [''coordinator''] (Some u)" by (simp add: role_required_def)
  have res: "new_event d s POST fm =
           (Flashed Submitted Dashboard,
            create_event d u (strip (f_title fm)) (strip (f_description fm))
              (strip (f_event_date fm)) (strip (f_start_time fm)) (strip (f_end_time fm))
              n vid reqs)"
    using a by (intro new_event_done[OF _ r]) blast+
  show "fst (new_event d s POST fm) = Flashed Submitted Dashboard" by (simp add: res)
  show "length (events (snd (new_event d s POST fm))) = length (events d) + 1"
    by (simp add: res create_event_events)
qed

theorem admitted_booking_times_witness:
  "fst (new_event init_db (Some 1) POST talk) = Flashed Submitted Dashboard \<and>
   map start_time (events (snd (new_event init_db (Some 1) POST talk))) = [''10:00''] \<and>
   map end_time (events (snd (new_event init_db (Some 1) POST talk))) = [''12:00''] \<and>
   fst (new_event init_db (Some 1) POST (talk\<lparr>f_end_time := ''  ''\<rparr>)) = Flashed FillRequired NewEventForm \<and>
   events (snd (new_event init_db (Some 1) POST (talk\<lparr>f_end_time := ''  ''\<rparr>))) = []"
proof -
  have h1: "fst (new_event init_db (Some 1) POST talk) = Flashed Submitted Dashboard"
    by code_simp
  have h2: "fst (new_event init_db (Some 1) POST (talk\<lparr>f_end_time := ''  ''\<rparr>)) =
      Flashed FillRequired NewEventForm"
    by code_simp
  have s: "strip (f_start_time talk) = ''10:00''" "strip (f_end_time talk) = ''12:00''"
    by (simp_all add: talk_def strip_def is_space_def)
  have e: "events init_db = []" by (simp add: init_db_def)
  from admitted_booking_times[of init_db "Some 1" POST talk, THEN conjunct1] h1
  obtain row where "events (snd (new_event init_db (Some 1) POST talk)) = events init_db @ [row]"
    "start_time row = strip (f_start_time talk)" "end_time row = strip (f_end_time talk)"
    by blast
  then have a: "map start_time (events (snd (new_event init_db (Some 1) POST talk))) = [''10:00'']"
    "map end_time (events (snd (new_event init_db (Some 1) POST talk))) = [''12:00'']"
    by (simp_all add: s e)
  from admitted_booking_times[of init_db "Some 1" POST "talk\<lparr>f_end_time := ''  ''\<rparr>",
      THEN conjunct2, THEN conjunct1] h2
  have b: "events (snd (new_event init_db (Some 1) POST (talk\<lparr>f_end_time := ''  ''\<rparr>))) = []"
    by (simp add: e)
  show ?thesis using h1 h2 a b by simp
qed








lemma new_event_validation:
  assumes "reaches_validation d s m fm u n vid"
  shows "new_event d s m fm = validation d u fm n vid"
proof -
  from assms have u: "load_user d s = Some u" and m: "m = POST"
    and n: "f_expected_attendees fm = Some n" and vid: "f_venue_id fm = Some vid"
    and b: "strip (f_title fm) \<noteq> []" "strip (f_event_date fm) \<noteq> []"
        "strip (f_start_time fm) \<noteq> []" "strip (f_end_time fm) \<noteq> []" "vid \<noteq> 0"
    and r: "role_required [''coordinator''] (Some u)"
    by (simp_all add: reaches_validation_def role_required_def)
  have lg: "login_required s" using u by (rule load_user_Some_session)
  have "new_event d s POST fm = validation d u fm n vid"
    unfolding new_event_def validation_def
    by (simp add: lg u r n vid b Let_def del: resource_validation.simps)
  then show ?thesis by (simp only: m)
qed

lemma new_event_other_answers:
  assumes "\<not> (\<exists>u n vid. reaches_validation d s m fm u n vid)"
  shows "new_event d s m fm \<in>
           {(Flashed PleaseLogIn LoginPage, d), (Flashed NoPermission Dashboard, d),
            (Plain NewEventForm, d), (Raised ValueError, d), (Flashed FillRequired NewEventForm, d)}"
  using assms unfolding new_event_def reaches_validation_def
  by (auto simp: Let_def role_required_def split: option.splits)

lemma resource_validation_stock:
  "resource_validation q rs = Inl (Flashed (InsufficientStock nm av k) pg) \<Longrightarrow>
     pg = NewEventForm \<and>
     (\<exists>res\<in>set rs. r_name res = nm \<and> available_quantity res = av \<and>
        q (r_id res) = Some k \<and> 0 < k \<and> av < k)"
  by (induction rs) (auto split: option.splits if_splits sum.splits)

lemma validation_conflict:
  assumes "fst (validation d u fm n vid) = Flashed (TimeSlotConflict vn dt cs ce ct) pg"
  shows "\<exists>v c. find (\<lambda>v. v_id v = vid) (venues d) = Some v \<and> n \<le> capacity v \<and>
           find (conflicts vid (strip (f_event_date fm)) (strip (f_start_time fm))
                   (strip (f_end_time fm))) (events d) = Some c \<and>
           vn = v_name v \<and> dt = strip (f_event_date fm) \<and>
           cs = start_time c \<and> ce = end_time c \<and> ct = title c \<and> pg = NewEventForm"
  using assms unfolding validation_def
  by (auto split: option.splits if_splits sum.splits dest: resource_validation_Inl)

lemma new_event_conflict:
  assumes "fst (new_event d s m fm) = Flashed (TimeSlotConflict vn dt cs ce ct) pg"
  shows "\<exists>u n vid v c. reaches_validation d s m fm u n vid \<and>
           find (\<lambda>v. v_id v = vid) (venues d) = Some v \<and> n \<le> capacity v \<and>
           find (conflicts vid (strip (f_event_date fm)) (strip (f_start_time fm))
                   (strip (f_end_time fm))) (events d) = Some c \<and>
           vn = v_name v \<and> dt = strip (f_event_date fm) \<and>
           cs = start_time c \<and> ce = end_time c \<and> ct = title c \<and> pg = NewEventForm"
proof (cases "\<exists>u n vid. reaches_validation d s m fm u n vid")
  case False
  then show ?thesis using new_event_other_answers[of d s m fm] assms by auto
next
  case True
  then obtain u n vid where r: "reaches_validation d s m fm u n vid" by blast
  have "fst (validation d u fm n vid) = Flashed (TimeSlotConflict vn dt cs ce ct) pg"
    using assms new_event_validation[OF r] by simp
  from validation_conflict[OF this] r show ?thesis by blast
qed

text \<open>
  C4, as stated, fails: an overlapping booking is not enough for the time-slot answer,
  because the capacity is tested first. With the booking of the seed data waiting on
  Seminar Hall 1 (capacity 100) from 10:00 to 12:00, a submission for 11:00 to 13:00 in
  the same hall on the same day with 150 attendees overlaps it and is refused for the
  capacity, not for the time slot.
\<close>

theorem conflict_after_capacity_counterexample:
  "list_ex (\<lambda>ev. venue_id ev = 2 \<and> event_date ev = ''2024-05-01'' \<and>
              status ev \<noteq> ''rejected'' \<and> status ev \<noteq> ''completed'' \<and>
              \<not> (end_time ev \<le> ''11:00'' \<or> start_time ev \<ge> ''13:00''))
     (events submitted) \<and>
   new_event submitted (Some 1) POST crowded_talk =
     (Flashed (CapacityExceeded ''Seminar Hall 1'' 100 150) NewEventForm, submitted)"
  unfolding submitted_def crowded_talk_def overlapping_talk_def by code_simp

text \<open>
  C4, amended. A booking submission is answered with a time-slot conflict only when some
  existing booking on the same venue and date, whose status is neither rejected nor
  completed, has a time range that overlaps the request under the test
  NOT (e1 <= s2 OR s1 >= e2), and the answer names the title and the time range of such
  a booking. A submission that has passed the checks before it (a logged-in
  coordinator, the numeric and required fields, an existing venue, attendees within its
  capacity) is answered with a time-slot conflict exactly when such a booking exists.
\<close>

theorem time_slot_conflict_exactly_on_overlap:
  "(fst (new_event d s m fm) = Flashed (TimeSlotConflict vn dt cs ce ct) pg \<longrightarrow>
      (\<exists>vid ev. f_venue_id fm = Some vid \<and> ev \<in> set (events d) \<and>
         venue_id ev = vid \<and> event_date ev = strip (f_event_date fm) \<and>
         status ev \<noteq> ''rejected'' \<and> status ev \<noteq> ''completed'' \<and>
         \<not> (end_time ev \<le> strip (f_start_time fm) \<or> start_time ev \<ge> strip (f_end_time fm)) \<and>
         cs = start_time ev \<and> ce = end_time ev \<and> ct = title ev)) \<and>
   (reaches_validation d s m fm u n vid \<and>
    find (\<lambda>v. v_id v = vid) (venues d) = Some v \<and> n \<le> capacity v \<longrightarrow>
      ((\<exists>ev. ev \<in> set (events d) \<and>
         venue_id ev = vid \<and> event_date ev = strip (f_event_date fm) \<and>
         status ev \<noteq> ''rejected'' \<and> status ev \<noteq> ''completed'' \<and>
         \<not> (end_time ev \<le> strip (f_start_time fm) \<or> start_time ev \<ge> strip (f_end_time fm)))
       = (\<exists>cs ce ct. new_event d s m fm =
            (Flashed (TimeSlotConflict (v_name v) (strip (f_event_date fm)) cs ce ct)
               NewEventForm, d))))"
proof (intro conjI impI)
  assume "fst (new_event d s m fm) = Flashed (TimeSlotConflict vn dt cs ce ct) pg"
  from new_event_conflict[OF this] obtain u n vid v c where
    r: "reaches_validation d s m fm u n vid"
    and c: "find (conflicts vid (strip (f_event_date fm)) (strip (f_start_time fm))
                   (strip (f_end_time fm))) (events d) = Some c"
    and nm: "cs = start_time c" "ce = end_time c" "ct = title c" by blast
  have "c \<in> set (events d)" and
    "conflicts vid (strip (f_event_date fm)) (strip (f_start_time fm)) (strip (f_end_time fm)) c"
    using c by (auto simp: find_Some_iff in_set_conv_nth)
  moreover have "f_venue_id fm = Some vid" using r by (simp add: reaches_validation_def)
  ultimately show "\<exists>vid ev. f_venue_id fm = Some vid \<and> ev \<in> set (events d) \<and>
         venue_id ev = vid \<and> event_date ev = strip (f_event_date fm) \<and>
         status ev \<noteq> ''rejected'' \<and> status ev \<noteq> ''completed'' \<and>
         \<not> (end_time ev \<le> strip (f_start_time fm) \<or> start_time ev \<ge> strip (f_end_time fm)) \<and>
         cs = start_time ev \<and> ce = end_time ev \<and> ct = title ev"
    using nm by (auto simp: conflicts_def)
next
  assume a: "reaches_validation d s m fm u n vid \<and>
    find (\<lambda>v. v_id v = vid) (venues d) = Some v \<and> n \<le> capacity v"
  then have r: "reaches_validation d s m fm u n vid"
    and v: "find (\<lambda>v. v_id v = vid) (venues d) = Some v" and cap: "\<not> capacity v < n" by simp_all
  let ?C = "find (conflicts vid (strip (f_event_date fm)) (strip (f_start_time fm))
                   (strip (f_end_time fm))) (events d)"
  have ex: "(\<exists>ev. ev \<in> set (events d) \<and>
         venue_id ev = vid \<and> event_date ev = strip (f_event_date fm) \<and>
         status ev \<noteq> ''rejected'' \<and> status ev \<noteq> ''completed'' \<and>
         \<not> (end_time ev \<le> strip (f_start_time fm) \<or> start_time ev \<ge> strip (f_end_time fm)))
       = (?C \<noteq> None)"
    by (auto simp: find_None_iff conflicts_def)
  have ans: "(\<exists>cs ce ct. new_event d s m fm =
            (Flashed (TimeSlotConflict (v_name v) (strip (f_event_date fm)) cs ce ct)
               NewEventForm, d)) = (?C \<noteq> None)"
  proof (cases ?C)
    case None
    have "\<And>cs ce ct. fst (new_event d s m fm) \<noteq>
        Flashed (TimeSlotConflict (v_name v) (strip (f_event_date fm)) cs ce ct) NewEventForm"
      using new_event_conflict[of d s m fm] r None
      by (auto simp: reaches_validation_def)
    then show ?thesis using None by (metis fst_conv)
  next
    case (Some c)
    have "new_event d s m fm =
        (Flashed (TimeSlotConflict (v_name v) (strip (f_event_date fm))
           (start_time c) (end_time c) (title c)) NewEventForm, d)"
      unfolding new_event_validation[OF r] validation_def
      by (simp add: v cap Some)
    then show ?thesis using Some by blast
  qed
  show "(\<exists>ev. ev \<in> set (events d) \<and>
         venue_id ev = vid \<and> event_date ev = strip (f_event_date fm) \<and>
         status ev \<noteq> ''rejected'' \<and> status ev \<noteq> ''completed'' \<and>
         \<not> (end_time ev \<le> strip (f_start_time fm) \<or> start_time ev \<ge> strip (f_end_time fm)))
       = (\<exists>cs ce ct. new_event d s m fm =
            (Flashed (TimeSlotConflict (v_name v) (strip (f_event_date fm)) cs ce ct)
               NewEventForm, d))"
    unfolding ex ans by simp
qed

theorem time_slot_conflict_exactly_on_overlap_witness:
  "new_event submitted (Some 1) POST overlapping_talk =
     (Flashed (TimeSlotConflict ''Seminar Hall 1'' ''2024-05-01'' ''10:00'' ''12:00'' ''Tech Talk'')
        NewEventForm, submitted) \<and>
   (\<exists>ev. ev \<in> set (events submitted) \<and>
         venue_id ev = 2 \<and> event_date ev = strip (f_event_date overlapping_talk) \<and>
         status ev \<noteq> ''rejected'' \<and> status ev \<noteq> ''completed'' \<and>
         \<not> (end_time ev \<le> strip (f_start_time overlapping_talk) \<or>
            start_time ev \<ge> strip (f_end_time overlapping_talk)))"
proof -
  define u where "u = \<lparr>u_id = 1, username = ''coordinator'', full_name = ''Alice Coordinator'',
          u_role = ''coordinator'', department = ''Computer Science''\<rparr>"
  define v where "v = \<lparr>v_id = 2, v_name = ''Seminar Hall 1'', capacity = 100,
          location = ''Block B, First Floor''\<rparr>"
  have h1: "new_event submitted (Some 1) POST overlapping_talk =
     (Flashed (TimeSlotConflict ''Seminar Hall 1'' ''2024-05-01'' ''10:00'' ''12:00'' ''Tech Talk'')
        NewEventForm, submitted)"
    unfolding submitted_def overlapping_talk_def by code_simp
  have h2: "reaches_validation submitted (Some 1) POST overlapping_talk u 50 2"
    unfolding submitted_def overlapping_talk_def u_def by code_simp
  have h3: "find (\<lambda>v. v_id v = 2) (venues submitted) = Some v"
    unfolding submitted_def v_def by code_simp
  have h4: "(50::int) \<le> capacity v" by (simp add: v_def)
  have d: "strip (f_event_date overlapping_talk) = ''2024-05-01''"
    by (simp add: overlapping_talk_def talk_def strip_def is_space_def)
  from time_slot_conflict_exactly_on_overlap[of submitted "Some 1" POST overlapping_talk
      "[]" "[]" "[]" "[]" "[]" NewEventForm u 50 2 v, THEN conjunct2] h2 h3 h4
  have "(\<exists>ev. ev \<in> set (events submitted) \<and>
         venue_id ev = 2 \<and> event_date ev = strip (f_event_date overlapping_talk) \<and>
         status ev \<noteq> ''rejected'' \<and> status ev \<noteq> ''completed'' \<and>
         \<not> (end_time ev \<le> strip (f_start_time overlapping_talk) \<or>
            start_time ev \<ge> strip (f_end_time overlapping_talk)))
       = (\<exists>cs ce ct. new_event submitted (Some 1) POST overlapping_talk =
            (Flashed (TimeSlotConflict (v_name v) (strip (f_event_date overlapping_talk)) cs ce ct)
               NewEventForm, submitted))"
    by blast
  moreover have "\<exists>cs ce ct. new_event submitted (Some 1) POST overlapping_talk =
            (Flashed (TimeSlotConflict (v_name v) (strip (f_event_date overlapping_talk)) cs ce ct)
               NewEventForm, submitted)"
    using h1 by (simp add: v_def d)
  ultimately show ?thesis using h1 by blast
qed

lemma validation_answers:
  "fst (validation d u fm n vid) = Flashed Submitted Dashboard \<Longrightarrow>
     (\<exists>v. find (\<lambda>v. v_id v = vid) (venues d) = Some v \<and> n \<le> capacity v) \<and>
     find (conflicts vid (strip (f_event_date fm)) (strip (f_start_time fm))
            (strip (f_end_time fm))) (events d) = None \<and>
     (\<exists>reqs. resource_validation (f_resource fm) (sort_key r_name (resources d)) = Inr reqs)"
  unfolding validation_def
  by (auto split: option.splits if_splits sum.splits dest: resource_validation_Inl)

text \<open>
  C5. A submission that is not accepted leaves the whole store unchanged, so nothing is
  debited or written before every check has passed. For a submission that reaches the
  validation (a logged-in coordinator, the numeric and required fields present), the
  answers follow the order of the checks, each one given whatever the later checks
  would say: a missing venue first; then attendees above the capacity; then a
  conflicting booking; then, when every quantity field is a number, a resource requested
  above its stock; and the submission is accepted only when the venue exists, the
  attendees are within the capacity, no booking conflicts and every requested resource
  is within its stock.
\<close>

theorem validation_order:
  "(fst (new_event d s m fm) \<noteq> Flashed Submitted Dashboard \<longrightarrow> snd (new_event d s m fm) = d) \<and>
   (reaches_validation d s m fm u n vid \<longrightarrow>
      (find (\<lambda>v. v_id v = vid) (venues d) = None \<longrightarrow>
         new_event d s m fm = (Flashed VenueMissing NewEventForm, d)) \<and>
      (find (\<lambda>v. v_id v = vid) (venues d) = Some v \<and> capacity v < n \<longrightarrow>
         new_event d s m fm =
           (Flashed (CapacityExceeded (v_name v) (capacity v) n) NewEventForm, d)) \<and>
      (find (\<lambda>v. v_id v = vid) (venues d) = Some v \<and> n \<le> capacity v \<and>
       find (conflicts vid (strip (f_event_date fm)) (strip (f_start_time fm))
              (strip (f_end_time fm))) (events d) = Some c \<longrightarrow>
         new_event d s m fm =
           (Flashed (TimeSlotConflict (v_name v) (strip (f_event_date fm))
              (start_time c) (end_time c) (title c)) NewEventForm, d)) \<and>
      (find (\<lambda>v. v_id v = vid) (venues d) = Some v \<and> n \<le> capacity v \<and>
       find (conflicts vid (strip (f_event_date fm)) (strip (f_start_time fm))
              (strip (f_end_time fm))) (events d) = None \<and>
       (\<forall>res\<in>set (resources d). f_resource fm (r_id res) \<noteq> None) \<and>
       (\<exists>res\<in>set (resources d). \<exists>q. f_resource fm (r_id res) = Some q \<and> 0 < q \<and>
          available_quantity res < q) \<longrightarrow>
         (\<exists>nm av q. new_event d s m fm = (Flashed (InsufficientStock nm av q) NewEventForm, d))) \<and>
      (fst (new_event d s m fm) = Flashed Submitted Dashboard \<longrightarrow>
         (\<exists>v. find (\<lambda>v. v_id v = vid) (venues d) = Some v \<and> n \<le> capacity v) \<and>
         find (conflicts vid (strip (f_event_date fm)) (strip (f_start_time fm))
              (strip (f_end_time fm))) (events d) = None \<and>
         (\<forall>res\<in>set (resources d). \<exists>q. f_resource fm (r_id res) = Some q \<and>
            (0 < q \<longrightarrow> q \<le> available_quantity res))))"
proof (intro conjI impI)
  assume "fst (new_event d s m fm) \<noteq> Flashed Submitted Dashboard"
  then show "snd (new_event d s m fm) = d" by (rule new_event_not_submitted)
next
  assume r: "reaches_validation d s m fm u n vid"
    and "find (\<lambda>v. v_id v = vid) (venues d) = None"
  then show "new_event d s m fm = (Flashed VenueMissing NewEventForm, d)"
    by (simp add: new_event_validation[OF r] validation_def)
next
  assume r: "reaches_validation d s m fm u n vid"
    and "find (\<lambda>v. v_id v = vid) (venues d) = Some v \<and> capacity v < n"
  then show "new_event d s m fm =
           (Flashed (CapacityExceeded (v_name v) (capacity v) n) NewEventForm, d)"
    by (simp add: new_event_validation[OF r] validation_def)
next
  assume r: "reaches_validation d s m fm u n vid"
    and "find (\<lambda>v. v_id v = vid) (venues d) = Some v \<and> n \<le> capacity v \<and>
       find (conflicts vid (strip (f_event_date fm)) (strip (f_start_time fm))
              (strip (f_end_time fm))) (events d) = Some c"
  then show "new_event d s m fm =
           (Flashed (TimeSlotConflict (v_name v) (strip (f_event_date fm))
              (start_time c) (end_time c) (title c)) NewEventForm, d)"
    by (simp add: new_event_validation[OF r] validation_def)
next
  assume r: "reaches_validation d s m fm u n vid"
    and a: "find (\<lambda>v. v_id v = vid) (venues d) = Some v \<and> n \<le> capacity v \<and>
       find (conflicts vid (strip (f_event_date fm)) (strip (f_start_time fm))
              (strip (f_end_time fm))) (events d) = None \<and>
       (\<forall>res\<in>set (resources d). f_resource fm (r_id res) \<noteq> None) \<and>
       (\<exists>res\<in>set (resources d). \<exists>q. f_resource fm (r_id res) = Some q \<and> 0 < q \<and>
          available_quantity res < q)"
  have "\<exists>nm av q. resource_validation (f_resource fm) (sort_key r_name (resources d)) =
          Inl (Flashed (InsufficientStock nm av q) NewEventForm)"
    using a by (intro resource_validation_short) simp_all
  then obtain nm av q where
    "resource_validation (f_resource fm) (sort_key r_name (resources d)) =
          Inl (Flashed (InsufficientStock nm av q) NewEventForm)" by blast
  then have "new_event d s m fm = (Flashed (InsufficientStock nm av q) NewEventForm, d)"
    using a by (simp add: new_event_validation[OF r] validation_def)
  then show "\<exists>nm av q. new_event d s m fm = (Flashed (InsufficientStock nm av q) NewEventForm, d)"
    by blast
next
  assume r: "reaches_validation d s m fm u n vid"
    and a: "fst (new_event d s m fm) = Flashed Submitted Dashboard"
  have v: "fst (validation d u fm n vid) = Flashed Submitted Dashboard"
    using a new_event_validation[OF r] by simp
  from validation_answers[OF v] obtain reqs where
    f: "\<exists>v. find (\<lambda>v. v_id v = vid) (venues d) = Some v \<and> n \<le> capacity v"
      "find (conflicts vid (strip (f_event_date fm)) (strip (f_start_time fm))
            (strip (f_end_time fm))) (events d) = None"
    and rv: "resource_validation (f_resource fm) (sort_key r_name (resources d)) = Inr reqs"
    by blast
  show "\<exists>v. find (\<lambda>v. v_id v = vid) (venues d) = Some v \<and> n \<le> capacity v" by (rule f(1))
  show "find (conflicts vid (strip (f_event_date fm)) (strip (f_start_time fm))
              (strip (f_end_time fm))) (events d) = None" by (rule f(2))
  show "\<forall>res\<in>set (resources d). \<exists>q. f_resource fm (r_id res) = Some q \<and>
            (0 < q \<longrightarrow> q \<le> available_quantity res)"
    using resource_validation_Inr[OF rv] by simp
qed

theorem validation_order_witness:
  "new_event submitted (Some 1) POST greedy_talk =
     (Flashed (CapacityExceeded ''Seminar Hall 1'' 100 150) NewEventForm, submitted) \<and>
   list_ex (conflicts 2 ''2024-05-01'' ''11:00'' ''13:00'') (events submitted) \<and>
   list_ex (\<lambda>res. available_quantity res < 99) (resources submitted)"
proof -
  define u where "u = \<lparr>u_id = 1, username = ''coordinator'', full_name = ''Alice Coordinator'',
          u_role = ''coordinator'', department = ''Computer Science''\<rparr>"
  define v where "v = \<lparr>v_id = 2, v_name = ''Seminar Hall 1'', capacity = 100,
          location = ''Block B, First Floor''\<rparr>"
  have h1: "reaches_validation submitted (Some 1) POST greedy_talk u 150 2"
    unfolding submitted_def greedy_talk_def crowded_talk_def overlapping_talk_def u_def
    by code_simp
  have h2: "find (\<lambda>v. v_id v = 2) (venues submitted) = Some v \<and> capacity v < 150"
    unfolding submitted_def v_def by code_simp
  have h3: "list_ex (conflicts 2 ''2024-05-01'' ''11:00'' ''13:00'') (events submitted)"
    unfolding submitted_def by code_simp
  have h4: "list_ex (\<lambda>res. available_quantity res < 99) (resources submitted)"
    unfolding submitted_def by code_simp
  from validation_order[of submitted "Some 1" POST greedy_talk u 150 2 v, THEN conjunct2] h1 h2
  have "new_event submitted (Some 1) POST greedy_talk =
           (Flashed (CapacityExceeded (v_name v) (capacity v) 150) NewEventForm, submitted)"
    by blast
  then show ?thesis using h3 h4 by (simp add: v_def)
qed

lemma reject_event_rejected:
  assumes "fst (reject_event d s eid rf) = Flashed Rejected Dashboard"
  shows "\<exists>u ev l. load_user d s = Some u \<and> role_required [''hod'', ''dean'', ''head''] (Some u)
            \<and> find (\<lambda>e. e_id e = eid) (events d) = Some ev
            \<and> status ev = ''pending_'' @ u_role u \<and> strip rf \<noteq> []
            \<and> ROLE_LABELS (u_role u) = Some l
            \<and> snd (reject_event d s eid rf) = reject_result d u ev eid (strip rf) l"
proof -
  have "\<exists>u ev. load_user d s = Some u \<and> role_required [''hod'', ''dean'', ''head''] (Some u)
            \<and> find (\<lambda>e. e_id e = eid) (events d) = Some ev
            \<and> status ev = ''pending_'' @ u_role u \<and> strip rf \<noteq> []"
    using assms unfolding reject_event_def
    by (auto simp: Let_def split: option.splits if_splits)
  then obtain u ev where u: "load_user d s = Some u"
    and r: "role_required [''hod'', ''dean'', ''head''] (Some u)"
    and ev: "find (\<lambda>e. e_id e = eid) (events d) = Some ev"
    and st: "status ev = ''pending_'' @ u_role u" and rs: "strip rf \<noteq> []" by blast
  from role_label[OF r] obtain l where l: "ROLE_LABELS (u_role u) = Some l" by blast
  show ?thesis using reject_event_done[OF u r ev st rs l] u r ev st rs l by auto
qed

lemma reject_event_not_rejected:
  assumes "fst (reject_event d s eid rf) \<noteq> Flashed Rejected Dashboard"
  shows "snd (reject_event d s eid rf) = d"
proof (cases "\<exists>u ev. load_user d s = Some u \<and> role_required [''hod'', ''dean'', ''head''] (Some u)
            \<and> find (\<lambda>e. e_id e = eid) (events d) = Some ev
            \<and> status ev = ''pending_'' @ u_role u \<and> strip rf \<noteq> []")
  case False
  then show ?thesis by (rule reject_event_refused)
next
  case True
  then obtain u ev where u: "load_user d s = Some u"
    and r: "role_required [''hod'', ''dean'', ''head''] (Some u)"
    and ev: "find (\<lambda>e. e_id e = eid) (events d) = Some ev"
    and st: "status ev = ''pending_'' @ u_role u" and rs: "strip rf \<noteq> []" by blast
  from role_label[OF r] obtain l where l: "ROLE_LABELS (u_role u) = Some l" by blast
  show ?thesis using reject_event_done[OF u r ev st rs l] assms by simp
qed

lemma complete_event_completed:
  assumes "fst (complete_event d s eid) = Flashed Completed Dashboard"
  shows "\<exists>u ev. load_user d s = Some u \<and> role_required [''coordinator''] (Some u)
            \<and> find (\<lambda>e. e_id e = eid) (events d) = Some ev
            \<and> status ev = ''approved'' \<and> created_by ev = u_id u
            \<and> snd (complete_event d s eid) = complete_result d eid"
proof -
  have "\<exists>u ev. load_user d s = Some u \<and> role_required [''coordinator''] (Some u)
            \<and> find (\<lambda>e. e_id e = eid) (events d) = Some ev
            \<and> status ev = ''approved'' \<and> created_by ev = u_id u"
    using assms unfolding complete_event_def
    by (auto simp: Let_def split: option.splits if_splits)
  then obtain u ev where c: "load_user d s = Some u" "role_required [''coordinator''] (Some u)"
    "find (\<lambda>e. e_id e = eid) (events d) = Some ev" "status ev = ''approved''"
    "created_by ev = u_id u" by blast
  show ?thesis using complete_event_done[OF c] c by auto
qed

lemma complete_event_not_completed:
  assumes "fst (complete_event d s eid) \<noteq> Flashed Completed Dashboard"
  shows "snd (complete_event d s eid) = d"
proof (cases "\<exists>u ev. load_user d s = Some u \<and> role_required [''coordinator''] (Some u)
            \<and> find (\<lambda>e. e_id e = eid) (events d) = Some ev
            \<and> status ev = ''approved'' \<and> created_by ev = u_id u")
  case False
  then show ?thesis by (rule complete_event_refused)
next
  case True
  then obtain u ev where c: "load_user d s = Some u" "role_required [''coordinator''] (Some u)"
    "find (\<lambda>e. e_id e = eid) (events d) = Some ev" "status ev = ''approved''"
    "created_by ev = u_id u" by blast
  show ?thesis using complete_event_done[OF c] assms by simp
qed

lemma approve_event_status:
  "\<exists>nx. \<not> terminal nx \<and>
     (\<forall>b. status_of (snd (approve_event d s eid c)) b = status_of d b \<or>
          (b = eid \<and> (\<exists>st. status_of d b = Some st \<and> \<not> terminal st) \<and>
           status_of (snd (approve_event d s eid c)) b = Some nx))"
proof (cases "\<exists>u ev. load_user d s = Some u \<and> role_required [''hod'', ''dean'', ''head''] (Some u)
            \<and> find (\<lambda>e. e_id e = eid) (events d) = Some ev
            \<and> status ev = ''pending_'' @ u_role u")
  case False
  then have "snd (approve_event d s eid c) = d" by (rule approve_event_refused)
  then show ?thesis by (intro exI[of _ "''approved''"]) (simp add: terminal_def)
next
  case True
  then obtain u ev where u: "load_user d s = Some u"
    and r: "role_required [''hod'', ''dean'', ''head''] (Some u)"
    and ev: "find (\<lambda>e. e_id e = eid) (events d) = Some ev"
    and st: "status ev = ''pending_'' @ u_role u" by blast
  from flow_of_role[OF r] obtain nx where
    fl: "APPROVAL_FLOW (''pending_'' @ u_role u) = Some (u_role u, nx)"
    and nx: "\<not> terminal nx" by (auto simp: terminal_def)
  define nr where "nr = (case APPROVAL_FLOW nx of None \<Rightarrow> [] | Some f \<Rightarrow> fst f)"
  define d' where "d' = approve_result d u ev eid c nx nr"
  have fl': "APPROVAL_FLOW (status ev) = Some (u_role u, nx)" using fl st by simp
  have res: "snd (approve_event d s eid c) = d'"
    using approve_event_done[OF u r ev st fl' nr_def] by (simp add: d'_def)
  have evs: "events d' =
     map (\<lambda>e. if e_id e = eid then e\<lparr>status := nx, current_approver_role := nr\<rparr> else e) (events d)"
    by (simp add: d'_def approve_result_fields)
  have sto: "status_of d' b = (if b = eid then Some nx else status_of d b)" for b
    using status_of_updated[OF evs, of b] ev by simp
  have pst: "\<not> terminal (status ev)" using st by (simp add: terminal_def)
  have st0: "status_of d eid = Some (status ev)" using ev by (simp add: status_of_def)
  show ?thesis
    unfolding res
    by (rule exI[of _ nx]) (use nx sto st0 pst in auto)
qed

lemma new_event_status:
  "status_of d b = Some st \<Longrightarrow> status_of (snd (new_event d s m fm)) b = Some st"
  "status_of d b = None \<Longrightarrow> status_of (snd (new_event d s m fm)) b = Some st' \<Longrightarrow> \<not> terminal st'"
proof -
  have ev: "events (snd (new_event d s m fm)) = events d \<or>
        (\<exists>row. events (snd (new_event d s m fm)) = events d @ [row] \<and> status row = ''pending_hod'')"
  proof (cases "fst (new_event d s m fm) = Flashed Submitted Dashboard")
    case False
    then show ?thesis using new_event_not_submitted[of d s m fm] by simp
  next
    case True
    from new_event_submitted[OF True] obtain u n vid v reqs where
      u: "load_user d s = Some u" and r: "role_required [''coordinator''] (Some u)"
      and m: "m = POST" and n: "f_expected_attendees fm = Some n" and vid: "f_venue_id fm = Some vid"
      and b: "strip (f_title fm) \<noteq> []" "strip (f_event_date fm) \<noteq> []"
        "strip (f_start_time fm) \<noteq> []" "strip (f_end_time fm) \<noteq> []" "vid \<noteq> 0"
      and v: "find (\<lambda>v. v_id v = vid) (venues d) = Some v" and cap: "n \<le> capacity v"
      and free: "find (conflicts vid (strip (f_event_date fm)) (strip (f_start_time fm))
                 (strip (f_end_time fm))) (events d) = None"
      and rv: "resource_validation (f_resource fm) (sort_key r_name (resources d)) = Inr reqs"
      by blast
    show ?thesis
      using new_event_done[OF u r n vid b v cap free rv] m by (simp add: create_event_events)
  qed
  show "status_of d b = Some st \<Longrightarrow> status_of (snd (new_event d s m fm)) b = Some st"
    using ev by (auto simp: status_of_def find_append_eq)
  show "status_of d b = None \<Longrightarrow> status_of (snd (new_event d s m fm)) b = Some st' \<Longrightarrow> \<not> terminal st'"
    using ev by (auto simp: status_of_def find_append_eq terminal_def split: if_splits)
qed

lemma reject_event_status:
  assumes "fst (reject_event d s eid rf) = Flashed Rejected Dashboard"
  shows "(\<exists>st. status_of d eid = Some st \<and> \<not> terminal st)"
    and "status_of (snd (reject_event d s eid rf)) eid = Some ''rejected''"
    and "b \<noteq> eid \<Longrightarrow> status_of (snd (reject_event d s eid rf)) b = status_of d b"
    and "resources (snd (reject_event d s eid rf)) =
       map (\<lambda>r. r\<lparr>available_quantity := available_quantity r +
              held (filter (\<lambda>er. er_event_id er = eid) (event_resources d)) (r_id r)\<rparr>) (resources d)"
proof -
  from reject_event_rejected[OF assms] obtain u ev l where
    ev: "find (\<lambda>e. e_id e = eid) (events d) = Some ev"
    and st: "status ev = ''pending_'' @ u_role u"
    and res: "snd (reject_event d s eid rf) = reject_result d u ev eid (strip rf) l" by blast
  have sto: "status_of (reject_result d u ev eid (strip rf) l) b' =
      (if b' = eid then Some ''rejected'' else status_of d b')" for b'
    using status_of_updated[OF reject_result_fields(1)[of d u ev eid "strip rf" l], of b'] ev
    by simp
  show "\<exists>st. status_of d eid = Some st \<and> \<not> terminal st"
    using ev st by (simp add: status_of_def terminal_def)
  show "status_of (snd (reject_event d s eid rf)) eid = Some ''rejected''"
    unfolding res using sto by simp
  show "b \<noteq> eid \<Longrightarrow> status_of (snd (reject_event d s eid rf)) b = status_of d b"
    unfolding res using sto by simp
  show "resources (snd (reject_event d s eid rf)) =
       map (\<lambda>r. r\<lparr>available_quantity := available_quantity r +
              held (filter (\<lambda>er. er_event_id er = eid) (event_resources d)) (r_id r)\<rparr>) (resources d)"
    unfolding res by (rule reject_result_fields(3))
qed

lemma complete_event_status:
  assumes "fst (complete_event d s eid) = Flashed Completed Dashboard"
  shows "(\<exists>st. status_of d eid = Some st \<and> \<not> terminal st)"
    and "status_of (snd (complete_event d s eid)) eid = Some ''completed''"
    and "b \<noteq> eid \<Longrightarrow> status_of (snd (complete_event d s eid)) b = status_of d b"
    and "resources (snd (complete_event d s eid)) =
       map (\<lambda>r. r\<lparr>available_quantity := available_quantity r +
              held (filter (\<lambda>er. er_event_id er = eid) (event_resources d)) (r_id r)\<rparr>) (resources d)"
proof -
  from complete_event_completed[OF assms] obtain u ev where
    ev: "find (\<lambda>e. e_id e = eid) (events d) = Some ev"
    and st: "status ev = ''approved''"
    and res: "snd (complete_event d s eid) = complete_result d eid" by blast
  have sto: "status_of (complete_result d eid) b' =
      (if b' = eid then Some ''completed'' else status_of d b')" for b'
    using status_of_updated[OF complete_result_fields(1)[of d eid], of b'] ev
    by simp
  show "\<exists>st. status_of d eid = Some st \<and> \<not> terminal st"
    using ev st by (simp add: status_of_def terminal_def)
  show "status_of (snd (complete_event d s eid)) eid = Some ''completed''"
    unfolding res using sto by simp
  show "b \<noteq> eid \<Longrightarrow> status_of (snd (complete_event d s eid)) b = status_of d b"
    unfolding res using sto by simp
  show "resources (snd (complete_event d s eid)) =
       map (\<lambda>r. r\<lparr>available_quantity := available_quantity r +
              held (filter (\<lambda>er. er_event_id er = eid) (event_resources d)) (r_id r)\<rparr>) (resources d)"
    unfolding res by (rule complete_result_fields(3))
qed

lemma credits_transition:
  assumes "credits d rq b"
  shows "\<exists>st st'. status_of d b = Some st \<and> \<not> terminal st \<and>
           status_of (snd (step d rq)) b = Some st' \<and> terminal st'"
proof (cases rq)
  case (RejectEvent s eid rf)
  with assms have b: "b = eid" and f: "fst (reject_event d s eid rf) = Flashed Rejected Dashboard"
    by simp_all
  show ?thesis
    using reject_event_status(1,2)[OF f] unfolding RejectEvent b
    by (auto simp: terminal_def)
next
  case (CompleteEvent s eid)
  with assms have b: "b = eid" and f: "fst (complete_event d s eid) = Flashed Completed Dashboard"
    by simp_all
  show ?thesis
    using complete_event_status(1,2)[OF f] unfolding CompleteEvent b
    by (auto simp: terminal_def)
qed (use assms in simp_all)

lemma credits_stock:
  assumes "credits d rq b"
  shows "resources (snd (step d rq)) =
       map (\<lambda>r. r\<lparr>available_quantity := available_quantity r +
              held (filter (\<lambda>er. er_event_id er = b) (event_resources d)) (r_id r)\<rparr>) (resources d)"
proof (cases rq)
  case (RejectEvent s eid rf)
  with assms have b: "b = eid" and f: "fst (reject_event d s eid rf) = Flashed Rejected Dashboard"
    by simp_all
  show ?thesis using reject_event_status(4)[OF f] unfolding RejectEvent b by simp
next
  case (CompleteEvent s eid)
  with assms have b: "b = eid" and f: "fst (complete_event d s eid) = Flashed Completed Dashboard"
    by simp_all
  show ?thesis using complete_event_status(4)[OF f] unfolding CompleteEvent b by simp
qed (use assms in simp_all)

lemma no_credit_status:
  assumes nc: "\<not> credits d rq b" and st: "status_of d b = Some st"
  shows "\<exists>st'. status_of (snd (step d rq)) b = Some st' \<and> (terminal st' \<longrightarrow> st' = st)"
proof (cases rq)
  case (NewEvent s m fm)
  then show ?thesis using new_event_status(1)[OF st, of s m fm] by simp
next
  case (ApproveEvent s eid c)
  from approve_event_status[of d s eid c] obtain nx where nx: "\<not> terminal nx"
    and a: "status_of (snd (approve_event d s eid c)) b = status_of d b \<or>
          (b = eid \<and> (\<exists>st. status_of d b = Some st \<and> \<not> terminal st) \<and>
           status_of (snd (approve_event d s eid c)) b = Some nx)" by blast
  then show ?thesis unfolding ApproveEvent using st by auto
next
  case (RejectEvent s eid rf)
  show ?thesis
  proof (cases "fst (reject_event d s eid rf) = Flashed Rejected Dashboard")
    case True
    with nc RejectEvent have "b \<noteq> eid" by auto
    from reject_event_status(3)[OF True this] show ?thesis unfolding RejectEvent using st by simp
  next
    case False
    from reject_event_not_rejected[OF False] show ?thesis unfolding RejectEvent using st by simp
  qed
next
  case (CompleteEvent s eid)
  show ?thesis
  proof (cases "fst (complete_event d s eid) = Flashed Completed Dashboard")
    case True
    with nc CompleteEvent have "b \<noteq> eid" by auto
    from complete_event_status(3)[OF True this] show ?thesis unfolding CompleteEvent using st by simp
  next
    case False
    from complete_event_not_completed[OF False] show ?thesis unfolding CompleteEvent using st by simp
  qed
qed

lemma terminal_stays:
  assumes st: "status_of d b = Some st" and t: "terminal st"
  shows "\<not> credits d rq b" and "status_of (snd (step d rq)) b = Some st"
proof -
  show nc: "\<not> credits d rq b" using credits_transition[of d rq b] st t by auto
  from no_credit_status[OF nc st] obtain st' where
    a: "status_of (snd (step d rq)) b = Some st'" and b: "terminal st' \<longrightarrow> st' = st" by blast
  have "st' = st"
  proof (cases rq)
    case (NewEvent s m fm)
    then show ?thesis using new_event_status(1)[OF st, of s m fm] a by simp
  next
    case (ApproveEvent s eid c)
    from approve_event_status[of d s eid c] obtain nx where nx: "\<not> terminal nx"
      and c: "status_of (snd (approve_event d s eid c)) b = status_of d b \<or>
          (b = eid \<and> (\<exists>st. status_of d b = Some st \<and> \<not> terminal st) \<and>
           status_of (snd (approve_event d s eid c)) b = Some nx)" by blast
    then show ?thesis using a st t unfolding ApproveEvent by auto
  next
    case (RejectEvent s eid rf)
    show ?thesis
    proof (cases "fst (reject_event d s eid rf) = Flashed Rejected Dashboard")
      case True
      with nc RejectEvent have "b \<noteq> eid" by auto
      from reject_event_status(3)[OF True this] show ?thesis using a st unfolding RejectEvent by simp
    next
      case False
      from reject_event_not_rejected[OF False] show ?thesis using a st unfolding RejectEvent by simp
    qed
  next
    case (CompleteEvent s eid)
    show ?thesis
    proof (cases "fst (complete_event d s eid) = Flashed Completed Dashboard")
      case True
      with nc CompleteEvent have "b \<noteq> eid" by auto
      from complete_event_status(3)[OF True this] show ?thesis using a st unfolding CompleteEvent by simp
    next
      case False
      from complete_event_not_completed[OF False] show ?thesis using a st unfolding CompleteEvent by simp
    qed
  qed
  with a show "status_of (snd (step d rq)) b = Some st" by simp
qed

lemma terminal_no_more_credits:
  "status_of d b = Some st \<Longrightarrow> terminal st \<Longrightarrow> credit_count d rqs b = 0"
proof (induction rqs arbitrary: d)
  case Nil
  show ?case by simp
next
  case (Cons rq rqs)
  from terminal_stays[OF Cons.prems, of rq] Cons.IH[of "snd (step d rq)"] Cons.prems(2)
  show ?case by simp
qed

lemma credit_count_le_1: "credit_count d rqs b \<le> 1"
proof (induction rqs arbitrary: d)
  case Nil
  show ?case by simp
next
  case (Cons rq rqs)
  show ?case
  proof (cases "credits d rq b")
    case True
    from credits_transition[OF True] obtain st' where
      "status_of (snd (step d rq)) b = Some st'" "terminal st'" by blast
    from terminal_no_more_credits[OF this] True show ?thesis by simp
  next
    case False
    then show ?thesis using Cons.IH[of "snd (step d rq)"] by simp
  qed
qed

lemma approve_event_keeps_stock:
  "resources (snd (approve_event d s eid c)) = resources d"
proof (cases "\<exists>u ev. load_user d s = Some u \<and> role_required [''hod'', ''dean'', ''head''] (Some u)
            \<and> find (\<lambda>e. e_id e = eid) (events d) = Some ev
            \<and> status ev = ''pending_'' @ u_role u")
  case False
  then have "snd (approve_event d s eid c) = d" by (rule approve_event_refused)
  then show ?thesis by simp
next
  case True
  then obtain u ev where u: "load_user d s = Some u"
    and r: "role_required [''hod'', ''dean'', ''head''] (Some u)"
    and ev: "find (\<lambda>e. e_id e = eid) (events d) = Some ev"
    and st: "status ev = ''pending_'' @ u_role u" by blast
  from flow_of_role[OF r] obtain nx where
    fl: "APPROVAL_FLOW (''pending_'' @ u_role u) = Some (u_role u, nx)" by auto
  define nr where "nr = (case APPROVAL_FLOW nx of None \<Rightarrow> [] | Some f \<Rightarrow> fst f)"
  have fl': "APPROVAL_FLOW (status ev) = Some (u_role u, nx)" using fl st by simp
  show ?thesis
    using approve_event_done[OF u r ev st fl' nr_def] by (simp add: approve_result_fields)
qed

lemma requested_nonneg:
  "\<forall>p\<in>set reqs. 0 < snd p \<Longrightarrow> 0 \<le> requested reqs rid"
  unfolding requested_def by (induction reqs) auto

lemma new_event_stock_le:
  "list_all2 (\<lambda>r' r. available_quantity r' \<le> available_quantity r)
     (resources (snd (new_event d s m fm))) (resources d)"
proof -
  from new_event_cases[of d s m fm] show ?thesis
  proof (elim disjE exE conjE)
    assume "snd (new_event d s m fm) = d"
    then show ?thesis by (simp add: list_all2_same)
  next
    fix u n vid v reqs
    assume u: "load_user d s = Some u" and r: "role_required [''coordinator''] (Some u)"
      and m: "m = POST" and n: "f_expected_attendees fm = Some n" and vid: "f_venue_id fm = Some vid"
      and b: "strip (f_title fm) \<noteq> []" "strip (f_event_date fm) \<noteq> []"
        "strip (f_start_time fm) \<noteq> []" "strip (f_end_time fm) \<noteq> []" "vid \<noteq> 0"
      and v: "find (\<lambda>v. v_id v = vid) (venues d) = Some v" and cap: "n \<le> capacity v"
      and free: "find (conflicts vid (strip (f_event_date fm)) (strip (f_start_time fm))
                 (strip (f_end_time fm))) (events d) = None"
      and rv: "resource_validation (f_resource fm) (sort_key r_name (resources d)) = Inr reqs"
    from resource_validation_Inr[OF rv] have pos: "\<forall>p\<in>set reqs. 0 < snd p" by blast
    have "resources (snd (new_event d s m fm)) =
       map (\<lambda>r. r\<lparr>available_quantity := available_quantity r - requested reqs (r_id r)\<rparr>) (resources d)"
      using new_event_done[OF u r n vid b v cap free rv] m by (simp add: create_event_stock)
    then show ?thesis
      using requested_nonneg[OF pos] by (simp add: list_all2_map1 list_all2_same)
  qed
qed

lemma no_credit_stock:
  assumes "\<forall>b. \<not> credits d rq b"
  shows "list_all2 (\<lambda>r' r. available_quantity r' \<le> available_quantity r)
     (resources (snd (step d rq))) (resources d)"
proof (cases rq)
  case (NewEvent s m fm)
  then show ?thesis using new_event_stock_le[of d s m fm] by simp
next
  case (ApproveEvent s eid c)
  then show ?thesis by (simp add: approve_event_keeps_stock list_all2_same)
next
  case (RejectEvent s eid rf)
  with assms have "fst (reject_event d s eid rf) \<noteq> Flashed Rejected Dashboard" by auto
  from reject_event_not_rejected[OF this] show ?thesis
    unfolding RejectEvent by (simp add: list_all2_same)
next
  case (CompleteEvent s eid)
  with assms have "fst (complete_event d s eid) \<noteq> Flashed Completed Dashboard" by auto
  from complete_event_not_completed[OF this] show ?thesis
    unfolding CompleteEvent by (simp add: list_all2_same)
qed

lemma credits_over:
  "credits d rq b \<Longrightarrow> \<not> over d b \<and> over (snd (step d rq)) b"
  using credits_transition[of d rq b] by (auto simp: over_def)

lemma over_stays:
  "over d b \<Longrightarrow> \<not> credits d rq b \<and> over (snd (step d rq)) b"
  using terminal_stays[of d b _ rq] by (auto simp: over_def split: option.splits)

lemma no_credit_not_over:
  assumes nc: "\<not> credits d rq b" and no: "\<not> over d b"
  shows "\<not> over (snd (step d rq)) b"
proof (cases "status_of d b")
  case (Some st)
  with no have nt: "\<not> terminal st" by (simp add: over_def)
  from no_credit_status[OF nc Some] nt show ?thesis by (auto simp: over_def)
next
  case None
  show ?thesis
  proof (cases rq)
    case (NewEvent s m fm)
    then show ?thesis using new_event_status(2)[OF None, of s m fm]
      by (auto simp: over_def split: option.splits)
  next
    case (ApproveEvent s eid c)
    from approve_event_status[of d s eid c] obtain nx where
      "status_of (snd (approve_event d s eid c)) b = status_of d b \<or>
          (b = eid \<and> (\<exists>st. status_of d b = Some st \<and> \<not> terminal st) \<and>
           status_of (snd (approve_event d s eid c)) b = Some nx)" by blast
    then show ?thesis using None unfolding ApproveEvent by (auto simp: over_def)
  next
    case (RejectEvent s eid rf)
    show ?thesis
    proof (cases "fst (reject_event d s eid rf) = Flashed Rejected Dashboard")
      case True
      with nc RejectEvent have "b \<noteq> eid" by auto
      from reject_event_status(3)[OF True this] show ?thesis
        using None unfolding RejectEvent by (simp add: over_def)
    next
      case False
      from reject_event_not_rejected[OF False] show ?thesis
        using None unfolding RejectEvent by (simp add: over_def)
    qed
  next
    case (CompleteEvent s eid)
    show ?thesis
    proof (cases "fst (complete_event d s eid) = Flashed Completed Dashboard")
      case True
      with nc CompleteEvent have "b \<noteq> eid" by auto
      from complete_event_status(3)[OF True this] show ?thesis
        using None unfolding CompleteEvent by (simp add: over_def)
    next
      case False
      from complete_event_not_completed[OF False] show ?thesis
        using None unfolding CompleteEvent by (simp add: over_def)
    qed
  qed
qed

lemma over_no_more_credits: "over d b \<Longrightarrow> credit_count d rqs b = 0"
  using terminal_no_more_credits[of d b _ rqs] by (auto simp: over_def split: option.splits)

lemma over_run: "over d b \<Longrightarrow> over (run d rqs) b"
proof (induction rqs arbitrary: d)
  case Nil
  then show ?case by simp
next
  case (Cons rq rqs)
  from over_stays[OF Cons.prems, of rq] Cons.IH[of "snd (step d rq)"] show ?case by simp
qed

lemma credit_count_once:
  "credit_count d rqs b = 1 \<longleftrightarrow> over (run d rqs) b \<and> \<not> over d b"
proof (induction rqs arbitrary: d)
  case Nil
  show ?case by auto
next
  case (Cons rq rqs)
  show ?case
  proof (cases "credits d rq b")
    case True
    from credits_over[OF True] have a: "\<not> over d b" and b: "over (snd (step d rq)) b" by simp_all
    from over_no_more_credits[OF b] over_run[OF b] a True show ?thesis by simp
  next
    case False
    have "over (snd (step d rq)) b \<longleftrightarrow> over d b"
      using no_credit_not_over[OF False] over_stays[of d b rq] by blast
    with False Cons.IH[of "snd (step d rq)"] show ?thesis by simp
  qed
qed

text \<open>
  C2, as stated, fails: the holds of a booking can be credited twice. The booking of the
  seed data waits for the dean, with 3 microphones and 2 projectors held (hold rows in
  the order of the resource names) and 3 projectors and 7 microphones available. The dean rejects it twice, the two requests overlapping: both pass the test
  of the status before either writes, both answer that the event is rejected, the log has
  two rejections, and the holds are credited twice (7 and 13 available). The same two
  requests one after the other credit them once (5 and 10).
\<close>

theorem holds_credited_twice_counterexample:
  "map status (events at_dean) = [''pending_dean''] \<and>
   map quantity_requested (event_resources at_dean) = [3, 2] \<and>
   map available_quantity (resources at_dean) = [3, 7, 8, 15] \<and>
   fst (overlapping_rejects at_dean 1 (Some 3) ''no budget'' (Some 3) ''too late'') =
     Flashed Rejected Dashboard \<and>
   fst (snd (overlapping_rejects at_dean 1 (Some 3) ''no budget'' (Some 3) ''too late'')) =
     Flashed Rejected Dashboard \<and>
   map a_action (approvals (snd (snd
     (overlapping_rejects at_dean 1 (Some 3) ''no budget'' (Some 3) ''too late'')))) =
     [''approved'', ''rejected'', ''rejected''] \<and>
   map available_quantity (resources (snd (snd
     (overlapping_rejects at_dean 1 (Some 3) ''no budget'' (Some 3) ''too late'')))) =
     [7, 13, 8, 15] \<and>
   map available_quantity (resources (run at_dean
     [RejectEvent (Some 3) 1 ''no budget'', RejectEvent (Some 3) 1 ''too late''])) =
     [5, 10, 8, 15]"
  unfolding at_dean_def by code_simp

text \<open>
  C2, amended. When the operations run one at a time, each starting on the store the
  previous one committed: a request credits the holds of booking \<open>b\<close> when it is a reject
  or a complete of \<open>b\<close> that succeeds. Over any sequence of requests the holds of a booking
  are credited at most once, and exactly once when the booking is over (rejected or
  completed) at the end and was not at the start. A request credits the holds of \<open>b\<close>
  exactly when \<open>b\<close> is over after it and was not before; a booking that is over stays so.
  The credit adds to each available quantity what the hold rows of \<open>b\<close> hold of the
  resource; a request that credits no booking raises no available quantity; an approve
  leaves the resources as they were.
\<close>

theorem holds_credited_once:
  "credit_count d rqs b \<le> 1 \<and>
   (credit_count d rqs b = 1 \<longleftrightarrow> over (run d rqs) b \<and> \<not> over d b) \<and>
   (credits d rq b \<longleftrightarrow> over (snd (step d rq)) b \<and> \<not> over d b) \<and>
   (over d b \<longrightarrow> over (run d rqs) b) \<and>
   (credits d rq b \<longrightarrow>
      resources (snd (step d rq)) =
        map (\<lambda>r. r\<lparr>available_quantity := available_quantity r +
               held (filter (\<lambda>er. er_event_id er = b) (event_resources d)) (r_id r)\<rparr>)
          (resources d)) \<and>
   ((\<forall>b'. \<not> credits d rq b') \<longrightarrow>
      list_all2 (\<lambda>r' r. available_quantity r' \<le> available_quantity r)
        (resources (snd (step d rq))) (resources d)) \<and>
   resources (snd (approve_event d s eid c)) = resources d"
proof -
  have a: "credit_count d rqs b \<le> 1" by (rule credit_count_le_1)
  have b: "credit_count d rqs b = 1 \<longleftrightarrow> over (run d rqs) b \<and> \<not> over d b"
    by (rule credit_count_once)
  have c: "credits d rq b \<longleftrightarrow> over (snd (step d rq)) b \<and> \<not> over d b"
    using credits_over[of d rq b] no_credit_not_over[of d rq b] by blast
  have e: "over d b \<longrightarrow> over (run d rqs) b" using over_run[of d b rqs] by blast
  have f: "credits d rq b \<longrightarrow>
      resources (snd (step d rq)) =
        map (\<lambda>r. r\<lparr>available_quantity := available_quantity r +
               held (filter (\<lambda>er. er_event_id er = b) (event_resources d)) (r_id r)\<rparr>)
          (resources d)"
    using credits_stock[of d rq b] by blast
  have g: "(\<forall>b'. \<not> credits d rq b') \<longrightarrow>
      list_all2 (\<lambda>r' r. available_quantity r' \<le> available_quantity r)
        (resources (snd (step d rq))) (resources d)"
    using no_credit_stock[of d rq] by blast
  have h: "resources (snd (approve_event d s eid c)) = resources d"
    by (rule approve_event_keeps_stock)
  from a b c e f g h show ?thesis by blast
qed

theorem holds_credited_once_witness:
  "credits at_dean (RejectEvent (Some 3) 1 ''no budget'') 1 \<and>
   resources (snd (step at_dean (RejectEvent (Some 3) 1 ''no budget''))) =
     map (\<lambda>r. r\<lparr>available_quantity := available_quantity r +
            held (filter (\<lambda>er. er_event_id er = 1) (event_resources at_dean)) (r_id r)\<rparr>)
       (resources at_dean) \<and>
   map available_quantity (resources (snd (step at_dean (RejectEvent (Some 3) 1 ''no budget'')))) =
     [5, 10, 8, 15] \<and>
   over (run at_dean [RejectEvent (Some 3) 1 ''no budget'']) 1 \<and>
   over (run (run at_dean [RejectEvent (Some 3) 1 ''no budget''])
     [RejectEvent (Some 3) 1 ''too late'', CompleteEvent (Some 1) 1]) 1 \<and>
   credit_count at_dean [RejectEvent (Some 3) 1 ''no budget'', RejectEvent (Some 3) 1 ''too late'',
     CompleteEvent (Some 1) 1] 1 = 1 \<and>
   list_all2 (\<lambda>r' r. available_quantity r' \<le> available_quantity r)
     (resources (snd (step init_db (NewEvent (Some 1) POST talk)))) (resources init_db) \<and>
   map available_quantity (resources (snd (step init_db (NewEvent (Some 1) POST talk)))) =
     [3, 7, 8, 15]"
proof -
  have h1: "credits at_dean (RejectEvent (Some 3) 1 ''no budget'') 1"
    unfolding at_dean_def by code_simp
  have h2: "over (run at_dean [RejectEvent (Some 3) 1 ''no budget'']) 1"
    unfolding at_dean_def by code_simp
  have h3: "\<forall>b'. \<not> credits init_db (NewEvent (Some 1) POST talk) b'" by simp
  have q1: "map available_quantity
      (resources (snd (step at_dean (RejectEvent (Some 3) 1 ''no budget'')))) = [5, 10, 8, 15]"
    unfolding at_dean_def by code_simp
  have q2: "map available_quantity (resources (snd (step init_db (NewEvent (Some 1) POST talk)))) =
     [3, 7, 8, 15]"
    by code_simp
  have q3: "credit_count at_dean [RejectEvent (Some 3) 1 ''no budget'',
     RejectEvent (Some 3) 1 ''too late'', CompleteEvent (Some 1) 1] 1 = 1"
    unfolding at_dean_def by code_simp
  from holds_credited_once[of at_dean "[]" 1 "RejectEvent (Some 3) 1 ''no budget''" None 0 "[]"] h1
  have r1: "resources (snd (step at_dean (RejectEvent (Some 3) 1 ''no budget''))) =
     map (\<lambda>r. r\<lparr>available_quantity := available_quantity r +
            held (filter (\<lambda>er. er_event_id er = 1) (event_resources at_dean)) (r_id r)\<rparr>)
       (resources at_dean)" by blast
  from holds_credited_once[of "run at_dean [RejectEvent (Some 3) 1 ''no budget'']"
      "[RejectEvent (Some 3) 1 ''too late'', CompleteEvent (Some 1) 1]" 1
      "RejectEvent (Some 3) 1 ''too late''" None 0 "[]"] h2
  have r2: "over (run (run at_dean [RejectEvent (Some 3) 1 ''no budget''])
     [RejectEvent (Some 3) 1 ''too late'', CompleteEvent (Some 1) 1]) 1" by blast
  from holds_credited_once[of init_db "[]" 1 "NewEvent (Some 1) POST talk" None 0 "[]"] h3
  have r3: "list_all2 (\<lambda>r' r. available_quantity r' \<le> available_quantity r)
     (resources (snd (step init_db (NewEvent (Some 1) POST talk)))) (resources init_db)" by blast
  from h1 h2 q1 q2 q3 r1 r2 r3 show ?thesis by blast
qed

end
